theory Spec2Isabelle
  imports Main "HOL-Library.Word"
begin

section \<open>Basic types of the routing engine\<close>

text \<open>
  \<open>NodeID\<close> and \<open>EdgeID\<close> are C++ \<open>unsigned\<close> (32 bit, wrapping); keys, weights and
  bounds are C++ \<open>int\<close> (32 bit), kept as words and compared through their signed
  reading (\<open><s\<close>, \<open><=s\<close>). Sums and differences of \<open>int\<close> values are taken in two's
  complement (modulo \<open>2 ^ 32\<close>); no result below depends on an overflow taking place.
\<close>

type_synonym NodeID = "32 word"
type_synonym EdgeID = "32 word"
type_synonym int32 = "32 word"

definition SPECIAL_EDGEID :: EdgeID where
  "SPECIAL_EDGEID = 4294967295"

definition INT_MAX :: int32 where
  "INT_MAX = 2147483647"

text \<open>
  Failures of the source made explicit: a failed \<open>BOOST_ASSERT_MSG\<close> (with its message),
  a heap operation called outside its contract, and a vector read out of range.
\<close>

datatype error =
    InvariantViolation string
  | ContractViolation string
  | OutOfBounds

definition ebind :: "error + 'a \<Rightarrow> ('a \<Rightarrow> error + 'b) \<Rightarrow> error + 'b" where
  "ebind m k = (case m of Inl e \<Rightarrow> Inl e | Inr x \<Rightarrow> k x)"

section \<open>Graph facade\<close>

text \<open>
  \<open>DataFacadeT::EdgeData\<close> as \<open>RoutingStep\<close> and the unpacking routines read it: the
  fields \<open>id\<close> (here \<open>id'\<close>), \<open>shortcut\<close>, \<open>distance\<close>, \<open>forward\<close>, \<open>backward\<close>.
\<close>

record EdgeData =
  id' :: NodeID
  shortcut :: bool
  distance :: int32
  forward :: bool
  backward :: bool

text \<open>
  The facade is the template parameter \<open>DataFacadeT\<close>: a read-only graph, taken here as
  a record of the member functions the routines call.
\<close>

record Facade =
  BeginEdges :: "NodeID \<Rightarrow> EdgeID"
  EndEdges :: "NodeID \<Rightarrow> EdgeID"
  GetTarget :: "EdgeID \<Rightarrow> NodeID"
  GetEdgeData :: "EdgeID \<Rightarrow> EdgeData"
  GetNameIndexFromEdgeID :: "NodeID \<Rightarrow> 32 word"
  GetTurnInstructionForEdgeID :: "NodeID \<Rightarrow> 8 word"

text \<open>
  The iteration space of \<open>for (edge = b; edge < e; ++edge)\<close> over unsigned edge ids.
\<close>

function edges_from :: "EdgeID \<Rightarrow> EdgeID \<Rightarrow> EdgeID list" where
  "edges_from edge end_edge =
     (if edge < end_edge then edge # edges_from (edge + 1) end_edge else [])"
  by pat_completeness auto
termination
proof (relation "measure (\<lambda>(edge, end_edge). unat end_edge - unat edge)")
  show "wf (measure (\<lambda>(edge, end_edge). unat end_edge - unat edge))"
    by simp
next
  fix edge end_edge :: EdgeID
  assume lt: "edge < end_edge"
  then have "unat (edge + 1) = Suc (unat edge)"
    by unat_arith
  with lt show "((edge + 1, end_edge), (edge, end_edge))
      \<in> measure (\<lambda>(edge, end_edge). unat end_edge - unat edge)"
    by (simp add: word_less_nat_alt)
qed

declare edges_from.simps [simp del]

definition out_edges :: "Facade \<Rightarrow> NodeID \<Rightarrow> EdgeID list" where
  "out_edges facade node = edges_from (BeginEdges facade node) (EndEdges facade node)"

section \<open>Query heap\<close>

text \<open>
  Modelled from the spec: the Query Heap (\<open>SearchEngineData::QueryHeap\<close>, declared in
  \<open>DataStructures/SearchEngineData.h\<close>, which lies outside the sources verified here),
  section 4.2 of the specification. A heap keeps, for
  every node ever inserted, its entry \<open>{key, parent}\<close>, and the nodes still queued.
  \<open>history\<close> is bookkeeping added for the proofs: the mutating operations applied,
  oldest first; no operation reads it.
  Which of several nodes of equal smallest key \<open>DeleteMin\<close> extracts is left open by the
  specification; the model takes the one queued first.
\<close>

record HeapEntry =
  key :: int32
  parent :: NodeID

datatype heap_op =
    OpInsert NodeID int32 NodeID
  | OpDecreaseKey NodeID int32
  | OpSetParent NodeID NodeID
  | OpDeleteMin NodeID
  | OpDeleteAll

record QueryHeap =
  inserted :: "NodeID \<rightharpoonup> HeapEntry"
  queue :: "NodeID list"
  history :: "heap_op list"

definition WasInserted :: "QueryHeap \<Rightarrow> NodeID \<Rightarrow> bool" where
  "WasInserted h n = (inserted h n \<noteq> None)"

definition GetData :: "QueryHeap \<Rightarrow> NodeID \<Rightarrow> error + HeapEntry" where
  "GetData h n =
     (case inserted h n of
        None \<Rightarrow> Inl (ContractViolation ''GetData'')
      | Some e \<Rightarrow> Inr e)"

definition GetKey :: "QueryHeap \<Rightarrow> NodeID \<Rightarrow> error + int32" where
  "GetKey h n =
     (case inserted h n of
        None \<Rightarrow> Inl (ContractViolation ''GetKey'')
      | Some e \<Rightarrow> Inr (key e))"

definition Insert :: "QueryHeap \<Rightarrow> NodeID \<Rightarrow> int32 \<Rightarrow> NodeID \<Rightarrow> error + QueryHeap" where
  "Insert h n k p =
     (if WasInserted h n then Inl (ContractViolation ''Insert'')
      else Inr (h\<lparr>inserted := (inserted h)(n \<mapsto> \<lparr>key = k, parent = p\<rparr>),
                  queue := queue h @ [n],
                  history := history h @ [OpInsert n k p]\<rparr>))"

definition DecreaseKey :: "QueryHeap \<Rightarrow> NodeID \<Rightarrow> int32 \<Rightarrow> error + QueryHeap" where
  "DecreaseKey h n k =
     (case inserted h n of
        None \<Rightarrow> Inl (ContractViolation ''DecreaseKey'')
      | Some e \<Rightarrow>
          if k <s key e
          then Inr (h\<lparr>inserted := (inserted h)(n \<mapsto> e\<lparr>key := k\<rparr>),
                      history := history h @ [OpDecreaseKey n k]\<rparr>)
          else Inl (ContractViolation ''DecreaseKey''))"

text \<open>The assignment \<open>heap.GetData(n).parent = p\<close> through the returned reference.\<close>

definition SetParent :: "QueryHeap \<Rightarrow> NodeID \<Rightarrow> NodeID \<Rightarrow> error + QueryHeap" where
  "SetParent h n p =
     (case inserted h n of
        None \<Rightarrow> Inl (ContractViolation ''GetData'')
      | Some e \<Rightarrow>
          Inr (h\<lparr>inserted := (inserted h)(n \<mapsto> e\<lparr>parent := p\<rparr>),
                 history := history h @ [OpSetParent n p]\<rparr>))"

definition key_less :: "QueryHeap \<Rightarrow> NodeID \<Rightarrow> NodeID \<Rightarrow> bool" where
  "key_less h x y =
     (case (inserted h x, inserted h y) of
        (Some ex, Some ey) \<Rightarrow> key ex <s key ey
      | _ \<Rightarrow> False)"

definition min_node :: "QueryHeap \<Rightarrow> NodeID \<Rightarrow> NodeID list \<Rightarrow> NodeID" where
  "min_node h n ns = fold (\<lambda>x best. if key_less h x best then x else best) ns n"

definition DeleteMin :: "QueryHeap \<Rightarrow> error + (NodeID \<times> QueryHeap)" where
  "DeleteMin h =
     (case queue h of
        [] \<Rightarrow> Inl (ContractViolation ''DeleteMin'')
      | n # ns \<Rightarrow>
          (let m = min_node h n ns
           in Inr (m, h\<lparr>queue := remove1 m (queue h),
                        history := history h @ [OpDeleteMin m]\<rparr>)))"

definition DeleteAll :: "QueryHeap \<Rightarrow> QueryHeap" where
  "DeleteAll h = h\<lparr>inserted := Map.empty, queue := [], history := history h @ [OpDeleteAll]\<rparr>"

section \<open>RoutingStep\<close>

text \<open>
  The objects \<open>RoutingStep\<close> receives by reference or pointer and may change, under
  the names of its parameters: \<open>forward_heap\<close> is the heap of the side being advanced,
  \<open>reverse_heap\<close> the heap of the opposite side.
\<close>

record SearchState =
  forward_heap :: QueryHeap
  reverse_heap :: QueryHeap
  middle_node_id :: NodeID
  upper_bound :: int32

text \<open>Lines 66 to 74: the update of the meeting node and the upper bound.\<close>

definition meet_update :: "SearchState \<Rightarrow> NodeID \<Rightarrow> int32 \<Rightarrow> error + SearchState" where
  "meet_update s node dist =
     (if WasInserted (reverse_heap s) node then
        ebind (GetKey (reverse_heap s) node) (\<lambda>k.
          let new_distance = k + dist in
          if new_distance <s upper_bound s then
            if 0 <=s new_distance
            then Inr (s\<lparr>middle_node_id := node, upper_bound := new_distance\<rparr>)
            else Inr s
          else Inr s)
      else Inr s)"

text \<open>Lines 87 to 100: the body of the stalling loop; \<open>Inr True\<close> is its \<open>return\<close>.\<close>

definition stall_edge :: "Facade \<Rightarrow> QueryHeap \<Rightarrow> int32 \<Rightarrow> bool \<Rightarrow> EdgeID \<Rightarrow> error + bool" where
  "stall_edge facade h dist forward_direction edge =
     (let data = GetEdgeData facade edge;
          reverse_flag = (if \<not> forward_direction then forward data else backward data)
      in if reverse_flag then
           (let to = GetTarget facade edge;
                edge_weight = distance data
            in if \<not> 0 <s edge_weight then Inl (InvariantViolation ''edge_weight invalid'')
               else if WasInserted h to then
                 ebind (GetKey h to) (\<lambda>k. Inr (k + edge_weight <s dist))
               else Inr False)
         else Inr False)"

fun stall_scan :: "Facade \<Rightarrow> QueryHeap \<Rightarrow> int32 \<Rightarrow> bool \<Rightarrow> EdgeID list \<Rightarrow> error + bool" where
  "stall_scan facade h dist forward_direction [] = Inr False"
| "stall_scan facade h dist forward_direction (edge # edges) =
     (case stall_edge facade h dist forward_direction edge of
        Inl e \<Rightarrow> Inl e
      | Inr True \<Rightarrow> Inr True
      | Inr False \<Rightarrow> stall_scan facade h dist forward_direction edges)"

text \<open>Lines 108 to 128: the body of the relaxation loop.\<close>

definition relax_edge ::
  "Facade \<Rightarrow> NodeID \<Rightarrow> int32 \<Rightarrow> bool \<Rightarrow> QueryHeap \<Rightarrow> EdgeID \<Rightarrow> error + QueryHeap" where
  "relax_edge facade node dist forward_direction h edge =
     (let data = GetEdgeData facade edge;
          forward_directionFlag = (if forward_direction then forward data else backward data)
      in if forward_directionFlag then
           (let to = GetTarget facade edge;
                edge_weight = distance data
            in if \<not> 0 <s edge_weight then Inl (InvariantViolation ''edge_weight invalid'')
               else
                 (let to_distance = dist + edge_weight
                  in if \<not> WasInserted h to then Insert h to to_distance node
                     else ebind (GetKey h to) (\<lambda>k.
                       if to_distance <s k
                       then ebind (SetParent h to node) (\<lambda>h'. DecreaseKey h' to to_distance)
                       else Inr h)))
         else Inr h)"

fun relax_edges ::
  "Facade \<Rightarrow> NodeID \<Rightarrow> int32 \<Rightarrow> bool \<Rightarrow> QueryHeap \<Rightarrow> EdgeID list \<Rightarrow> error + QueryHeap" where
  "relax_edges facade node dist forward_direction h [] = Inr h"
| "relax_edges facade node dist forward_direction h (edge # edges) =
     (case relax_edge facade node dist forward_direction h edge of
        Inl e \<Rightarrow> Inl e
      | Inr h' \<Rightarrow> relax_edges facade node dist forward_direction h' edges)"

definition RoutingStep :: "Facade \<Rightarrow> SearchState \<Rightarrow> int32 \<Rightarrow> bool \<Rightarrow> error + SearchState" where
  "RoutingStep facade s edge_expansion_offset forward_direction =
     ebind (DeleteMin (forward_heap s)) (\<lambda>(node, h).
     ebind (GetKey h node) (\<lambda>dist.
     ebind (meet_update (s\<lparr>forward_heap := h\<rparr>) node dist) (\<lambda>s1.
       if upper_bound s1 <s dist - edge_expansion_offset
       then Inr (s1\<lparr>forward_heap := DeleteAll h\<rparr>)
       else
         ebind (stall_scan facade h dist forward_direction (out_edges facade node)) (\<lambda>stalled.
           if stalled then Inr s1
           else
             ebind (relax_edges facade node dist forward_direction h (out_edges facade node))
               (\<lambda>h'. Inr (s1\<lparr>forward_heap := h'\<rparr>))))))"


section \<open>Edge selection of the unpacking routines\<close>

text \<open>
  The condition and body of the two scanning loops (lines 153 to 167 and 170 to 184 of
  \<open>UnpackPath\<close>, the same text in \<open>UnpackEdge\<close>): the pair
  \<open>(smaller_edge_id, edge_weight)\<close> is replaced when the edge leads to \<open>target\<close>, is
  strictly lighter than \<open>edge_weight\<close> and has the flag asked for (\<open>forward\<close> in the
  first loop, \<open>backward\<close> in the second).
\<close>

definition select_edge ::
  "Facade \<Rightarrow> NodeID \<Rightarrow> bool \<Rightarrow> EdgeID \<Rightarrow> EdgeID \<times> int32 \<Rightarrow> EdgeID \<times> int32" where
  "select_edge facade target use_forward edge_id best =
     (let weight = distance (GetEdgeData facade edge_id)
      in if GetTarget facade edge_id = target \<and> weight <s snd best \<and>
            (if use_forward then forward (GetEdgeData facade edge_id)
             else backward (GetEdgeData facade edge_id))
         then (edge_id, weight)
         else best)"

text \<open>
  Lines 151 to 186: both scans and the assertion \<open>edge_weight != INT_MAX\<close>, whose
  message \<open>msg\<close> differs between \<open>UnpackPath\<close> and \<open>UnpackEdge\<close>.
\<close>

definition find_smaller_edge :: "Facade \<Rightarrow> string \<Rightarrow> NodeID \<times> NodeID \<Rightarrow> error + EdgeID" where
  "find_smaller_edge facade msg edge =
     (let first_scan = fold (select_edge facade (snd edge) True) (out_edges facade (fst edge))
                         (SPECIAL_EDGEID, INT_MAX);
          second_scan =
            (if SPECIAL_EDGEID = fst first_scan
             then fold (select_edge facade (fst edge) False) (out_edges facade (snd edge))
                    first_scan
             else first_scan)
      in if snd second_scan \<noteq> INT_MAX then Inr (fst second_scan)
         else Inl (InvariantViolation msg))"

section \<open>UnpackPath\<close>

text \<open>
  Modelled from the spec: the record \<open>_PathData\<close> (declared in
  \<open>DataStructures/RawRouteData.h\<close>, outside the sources verified here), one per original
  edge: \<open>{edge_payload, name_index, turn_instruction, weight}\<close>.
\<close>

record PathData =
  edge_payload :: NodeID
  name_index :: "32 word"
  turn_instruction :: "8 word"
  weight :: int32

definition make_PathData :: "Facade \<Rightarrow> EdgeData \<Rightarrow> PathData" where
  "make_PathData facade ed =
     \<lparr>edge_payload = id' ed,
      name_index = GetNameIndexFromEdgeID facade (id' ed),
      turn_instruction = GetTurnInstructionForEdgeID facade (id' ed),
      weight = distance ed\<rparr>"

text \<open>
  Lines 140 to 144: the loop that seeds the stack, with the unsigned counter \<open>i\<close>. The
  stack is a list whose head is the top. A read of \<open>packed_path\<close> outside its bounds is
  undefined behaviour in the source and the error \<open>OutOfBounds\<close> here.
\<close>

function seed_stack ::
  "NodeID list \<Rightarrow> 32 word \<Rightarrow> (NodeID \<times> NodeID) list \<Rightarrow> error + (NodeID \<times> NodeID) list" where
  "seed_stack packed_path i recursion_stack =
     (if 0 < i then
        (if unat (i - 1) < length packed_path \<and> unat i < length packed_path
         then seed_stack packed_path (i - 1)
                ((packed_path ! unat (i - 1), packed_path ! unat i) # recursion_stack)
         else Inl OutOfBounds)
      else Inr recursion_stack)"
  by pat_completeness auto
termination
proof (relation "measure (\<lambda>(packed_path, i, recursion_stack). unat i)")
  show "wf (measure (\<lambda>(packed_path, i, recursion_stack). unat i))"
    by simp
next
  fix packed_path :: "NodeID list" and i :: "32 word"
    and recursion_stack :: "(NodeID \<times> NodeID) list"
  assume "0 < i"
  then have "unat (i - 1) < unat i"
    by unat_arith
  then show "((packed_path, i - 1,
               (packed_path ! unat (i - 1), packed_path ! unat i) # recursion_stack),
              (packed_path, i, recursion_stack))
      \<in> measure (\<lambda>(packed_path, i, recursion_stack). unat i)"
    by simp
qed

declare seed_stack.simps [simp del]

text \<open>
  Lines 148 to 204: one round of the \<open>while\<close> loop, after the pair is popped. (The
  assertion \<open>!ed.shortcut\<close> in the \<open>else\<close> branch repeats the condition of the branch and
  cannot fail.)
\<close>

definition unpack_path_step ::
  "Facade \<Rightarrow> NodeID \<times> NodeID \<Rightarrow> (NodeID \<times> NodeID) list \<Rightarrow> PathData list \<Rightarrow>
     error + ((NodeID \<times> NodeID) list \<times> PathData list)" where
  "unpack_path_step facade edge recursion_stack unpacked_path =
     ebind (find_smaller_edge facade ''edge id invalid'' edge) (\<lambda>smaller_edge_id.
       let ed = GetEdgeData facade smaller_edge_id
       in if shortcut ed then
            (let middle = id' ed
             in Inr ((fst edge, middle) # (middle, snd edge) # recursion_stack,
                     unpacked_path))
          else Inr (recursion_stack, unpacked_path @ [make_PathData facade ed]))"

text \<open>
  The \<open>while\<close> loop. Nothing bounds the number of its rounds (a shortcut may unpack into
  itself), so the loop is a partial function: \<open>None\<close> is a run that never ends.
\<close>

partial_function (option) unpack_path_loop ::
  "Facade \<Rightarrow> (NodeID \<times> NodeID) list \<Rightarrow> PathData list \<Rightarrow> (error + PathData list) option" where
  "unpack_path_loop facade recursion_stack unpacked_path =
     (case recursion_stack of
        [] \<Rightarrow> Some (Inr unpacked_path)
      | edge # rest \<Rightarrow>
          (case unpack_path_step facade edge rest unpacked_path of
             Inl e \<Rightarrow> Some (Inl e)
           | Inr next_state \<Rightarrow> unpack_path_loop facade (fst next_state) (snd next_state)))"

definition UnpackPath ::
  "Facade \<Rightarrow> NodeID list \<Rightarrow> PathData list \<Rightarrow> (error + PathData list) option" where
  "UnpackPath facade packed_path unpacked_path =
     (let packed_path_size = (of_nat (length packed_path) :: 32 word)
      in case seed_stack packed_path (packed_path_size - 1) [] of
           Inl e \<Rightarrow> Some (Inl e)
         | Inr recursion_stack \<Rightarrow> unpack_path_loop facade recursion_stack unpacked_path)"

section \<open>UnpackEdge\<close>

definition unpack_edge_step ::
  "Facade \<Rightarrow> NodeID \<times> NodeID \<Rightarrow> (NodeID \<times> NodeID) list \<Rightarrow> NodeID list \<Rightarrow>
     error + ((NodeID \<times> NodeID) list \<times> NodeID list)" where
  "unpack_edge_step facade edge recursion_stack unpacked_path =
     ebind (find_smaller_edge facade ''edge weight invalid'' edge) (\<lambda>smaller_edge_id.
       let ed = GetEdgeData facade smaller_edge_id
       in if shortcut ed then
            (let middle = id' ed
             in Inr ((fst edge, middle) # (middle, snd edge) # recursion_stack,
                     unpacked_path))
          else Inr (recursion_stack, unpacked_path @ [fst edge]))"

partial_function (option) unpack_edge_loop ::
  "Facade \<Rightarrow> (NodeID \<times> NodeID) list \<Rightarrow> NodeID list \<Rightarrow> (error + NodeID list) option" where
  "unpack_edge_loop facade recursion_stack unpacked_path =
     (case recursion_stack of
        [] \<Rightarrow> Some (Inr unpacked_path)
      | edge # rest \<Rightarrow>
          (case unpack_edge_step facade edge rest unpacked_path of
             Inl e \<Rightarrow> Some (Inl e)
           | Inr next_state \<Rightarrow> unpack_edge_loop facade (fst next_state) (snd next_state)))"

definition UnpackEdge ::
  "Facade \<Rightarrow> NodeID \<Rightarrow> NodeID \<Rightarrow> NodeID list \<Rightarrow> (error + NodeID list) option" where
  "UnpackEdge facade s t unpacked_path =
     (case unpack_edge_loop facade [(s, t)] unpacked_path of
        None \<Rightarrow> None
      | Some (Inl e) \<Rightarrow> Some (Inl e)
      | Some (Inr nodes) \<Rightarrow> Some (Inr (nodes @ [t])))"

section \<open>RetrievePackedPathFromHeap\<close>

text \<open>
  The loop \<open>while (current != heap.GetData(current).parent)\<close> of lines 283 to 286 and
  291 to 294, which appends every node it moves to. A cycle of parents keeps it running
  for ever, hence a partial function. (Parameters that would clash with the fields of
  \<open>SearchState\<close> carry a prime.)
\<close>

partial_function (option) parent_walk ::
  "QueryHeap \<Rightarrow> NodeID \<Rightarrow> NodeID list \<Rightarrow> (error + NodeID list) option" where
  "parent_walk heap current_node_id packed_path =
     (case GetData heap current_node_id of
        Inl e \<Rightarrow> Some (Inl e)
      | Inr entry \<Rightarrow>
          if current_node_id \<noteq> parent entry
          then parent_walk heap (parent entry) (packed_path @ [parent entry])
          else Some (Inr packed_path))"

definition RetrievePackedPathFromHeap ::
  "QueryHeap \<Rightarrow> QueryHeap \<Rightarrow> NodeID \<Rightarrow> NodeID list \<Rightarrow> (error + NodeID list) option" where
  "RetrievePackedPathFromHeap forward_heap' reverse_heap' middle_node_id' packed_path =
     (case parent_walk forward_heap' middle_node_id' packed_path of
        None \<Rightarrow> None
      | Some (Inl e) \<Rightarrow> Some (Inl e)
      | Some (Inr forward_part) \<Rightarrow>
          parent_walk reverse_heap' middle_node_id' (rev forward_part @ [middle_node_id']))"

definition RetrievePackedPathFromSingleHeap ::
  "QueryHeap \<Rightarrow> NodeID \<Rightarrow> NodeID list \<Rightarrow> (error + NodeID list) option" where
  "RetrievePackedPathFromSingleHeap search_heap middle_node_id' packed_path =
     parent_walk search_heap middle_node_id' packed_path"

section \<open>Predicates of the claims about RoutingStep\<close>

definition reverse_flag :: "bool \<Rightarrow> EdgeData \<Rightarrow> bool" where
  "reverse_flag forward_direction data = (if \<not> forward_direction then forward data else backward data)"

definition stalling_edge :: "Facade \<Rightarrow> QueryHeap \<Rightarrow> int32 \<Rightarrow> bool \<Rightarrow> EdgeID \<Rightarrow> bool" where
  "stalling_edge facade h dist forward_direction edge =
     (reverse_flag forward_direction (GetEdgeData facade edge) \<and>
      (case inserted h (GetTarget facade edge) of
         None \<Rightarrow> False
       | Some e \<Rightarrow> key e + distance (GetEdgeData facade edge) <s dist))"

definition direction_flag :: "bool \<Rightarrow> EdgeData \<Rightarrow> bool" where
  "direction_flag forward_direction data = (if forward_direction then forward data else backward data)"

section \<open>Predicates of the claims about path assembly\<close>

text \<open>
  \<open>parent_chain heap x ps\<close>: walking the parents in \<open>heap\<close> from \<open>x\<close> visits the nodes
  \<open>ps\<close>, in this order, and stops at the last of them (at \<open>x\<close> itself when \<open>ps\<close> is
  empty), which is its own parent.
\<close>

fun parent_chain :: "QueryHeap \<Rightarrow> NodeID \<Rightarrow> NodeID list \<Rightarrow> bool" where
  "parent_chain heap x [] =
     (case inserted heap x of None \<Rightarrow> False | Some e \<Rightarrow> parent e = x)"
| "parent_chain heap x (p # ps) =
     (case inserted heap x of
        None \<Rightarrow> False
      | Some e \<Rightarrow> parent e = p \<and> p \<noteq> x \<and> parent_chain heap p ps)"

text \<open>
  An edge is a candidate for a pair when it leads to \<open>target\<close> and carries the flag asked
  for. \<open>lightest\<close> is a candidate out of \<open>source\<close> of minimum weight, and
  \<open>selection_as_claimed\<close> the selection rule in the words of the specification: the
  lightest forward candidate out of \<open>a\<close> to \<open>b\<close>, and only if there is no such candidate
  the lightest backward candidate out of \<open>b\<close> to \<open>a\<close>.
\<close>

definition candidate :: "Facade \<Rightarrow> NodeID \<Rightarrow> bool \<Rightarrow> EdgeID \<Rightarrow> bool" where
  "candidate facade target use_forward e =
     (GetTarget facade e = target \<and> direction_flag use_forward (GetEdgeData facade e))"

definition lightest :: "Facade \<Rightarrow> NodeID \<Rightarrow> NodeID \<Rightarrow> bool \<Rightarrow> EdgeID \<Rightarrow> bool" where
  "lightest facade source target use_forward e =
     (e \<in> set (out_edges facade source) \<and> candidate facade target use_forward e \<and>
      (\<forall>e' \<in> set (out_edges facade source).
         candidate facade target use_forward e' \<longrightarrow>
         distance (GetEdgeData facade e) <=s distance (GetEdgeData facade e')))"

definition selection_as_claimed :: "Facade \<Rightarrow> string \<Rightarrow> NodeID \<Rightarrow> NodeID \<Rightarrow> bool" where
  "selection_as_claimed facade msg a b =
     (if \<exists>e \<in> set (out_edges facade a). candidate facade b True e
      then \<exists>e. find_smaller_edge facade msg (a, b) = Inr e \<and> lightest facade a b True e
      else if \<exists>e \<in> set (out_edges facade b). candidate facade a False e
      then \<exists>e. find_smaller_edge facade msg (a, b) = Inr e \<and> lightest facade b a False e
      else True)"

text \<open>
  What the scans can select: a candidate lighter than \<open>INT_MAX\<close>, the value
  \<open>edge_weight\<close> starts from. \<open>first_lightest\<close> is the usable candidate of minimum
  weight that comes first in the order of the scan.
\<close>

definition usable :: "Facade \<Rightarrow> NodeID \<Rightarrow> bool \<Rightarrow> EdgeID \<Rightarrow> bool" where
  "usable facade target use_forward e =
     (candidate facade target use_forward e \<and> distance (GetEdgeData facade e) <s INT_MAX)"

definition first_lightest :: "Facade \<Rightarrow> NodeID \<Rightarrow> NodeID \<Rightarrow> bool \<Rightarrow> EdgeID \<Rightarrow> bool" where
  "first_lightest facade source target use_forward e =
     (\<exists>pre post.
        out_edges facade source = pre @ e # post \<and> usable facade target use_forward e \<and>
        (\<forall>e' \<in> set pre. usable facade target use_forward e' \<longrightarrow>
           distance (GetEdgeData facade e) <s distance (GetEdgeData facade e')) \<and>
        (\<forall>e' \<in> set post. usable facade target use_forward e' \<longrightarrow>
           distance (GetEdgeData facade e) <=s distance (GetEdgeData facade e')))"

text \<open>
  A record of the output is original when it was built from an edge of the graph that is
  not a shortcut.
\<close>

definition original_record :: "Facade \<Rightarrow> PathData \<Rightarrow> bool" where
  "original_record facade pd =
     (\<exists>n e. e \<in> set (out_edges facade n) \<and> \<not> shortcut (GetEdgeData facade e) \<and>
            pd = make_PathData facade (GetEdgeData facade e))"

section \<open>Example graphs and search states\<close>

definition stall_facade :: Facade where
  "stall_facade =
     \<lparr>BeginEdges = (\<lambda>n. if n = 0 then 0 else if n = 1 then 2 else if n = 2 then 3 else 4),
      EndEdges = (\<lambda>n. if n = 0 then 2 else if n = 1 then 3 else if n = 2 then 4 else 4),
      GetTarget = (\<lambda>e. if e = 0 then 1 else if e = 1 then 2 else if e = 2 then 2 else 1),
      GetEdgeData = (\<lambda>e.
        if e = 0 then \<lparr>id' = 100, shortcut = False, distance = 1, forward = True, backward = False\<rparr>
        else if e = 1 then \<lparr>id' = 101, shortcut = False, distance = 10, forward = True, backward = False\<rparr>
        else if e = 2 then \<lparr>id' = 102, shortcut = False, distance = 1, forward = True, backward = False\<rparr>
        else \<lparr>id' = 103, shortcut = False, distance = 1, forward = False, backward = True\<rparr>),
      GetNameIndexFromEdgeID = (\<lambda>i. i),
      GetTurnInstructionForEdgeID = (\<lambda>i. 0)\<rparr>"

definition heap_a :: QueryHeap where
  "heap_a = \<lparr>inserted = [0 \<mapsto> \<lparr>key = 0, parent = 0\<rparr>, 1 \<mapsto> \<lparr>key = 1, parent = 0\<rparr>,
                           2 \<mapsto> \<lparr>key = 10, parent = 0\<rparr>],
             queue = [2], history = []\<rparr>"

definition heap_a' :: QueryHeap where
  "heap_a' = heap_a\<lparr>queue := [], history := [OpDeleteMin 2]\<rparr>"

definition heap_b :: QueryHeap where
  "heap_b = \<lparr>inserted = [2 \<mapsto> \<lparr>key = 0, parent = 2\<rparr>], queue = [], history = []\<rparr>"

definition heap_empty :: QueryHeap where
  "heap_empty = \<lparr>inserted = Map.empty, queue = [], history = []\<rparr>"

definition state_a :: SearchState where
  "state_a = \<lparr>forward_heap = heap_a, reverse_heap = heap_b, middle_node_id = 7,
               upper_bound = INT_MAX\<rparr>"

definition state_a1 :: SearchState where
  "state_a1 = \<lparr>forward_heap = heap_a', reverse_heap = heap_b, middle_node_id = 2,
               upper_bound = 10\<rparr>"

definition state_c :: SearchState where
  "state_c = \<lparr>forward_heap = heap_a, reverse_heap = heap_empty, middle_node_id = 1,
               upper_bound = 5\<rparr>"

definition heap_r :: QueryHeap where
  "heap_r = \<lparr>inserted = [0 \<mapsto> \<lparr>key = 0, parent = 0\<rparr>, 2 \<mapsto> \<lparr>key = 50, parent = 5\<rparr>],
             queue = [0, 2], history = []\<rparr>"

definition heap_r' :: QueryHeap where
  "heap_r' = heap_r\<lparr>queue := [2], history := [OpDeleteMin 0]\<rparr>"

definition heap_r1 :: QueryHeap where
  "heap_r1 = heap_r'\<lparr>inserted := (inserted heap_r')(1 \<mapsto> \<lparr>key = 1, parent = 0\<rparr>),
                     queue := [2, 1], history := [OpDeleteMin 0, OpInsert 1 1 0]\<rparr>"

definition heap_r2 :: QueryHeap where
  "heap_r2 = heap_r1\<lparr>inserted := (inserted heap_r1)(2 \<mapsto> \<lparr>key = 10, parent = 0\<rparr>),
                     history := [OpDeleteMin 0, OpInsert 1 1 0, OpSetParent 2 0, OpDecreaseKey 2 10]\<rparr>"

definition state_r :: SearchState where
  "state_r = \<lparr>forward_heap = heap_r, reverse_heap = heap_empty, middle_node_id = 7,
               upper_bound = INT_MAX\<rparr>"

definition heap_f :: QueryHeap where
  "heap_f = \<lparr>inserted = [0 \<mapsto> \<lparr>key = 0, parent = 0\<rparr>, 1 \<mapsto> \<lparr>key = 3, parent = 0\<rparr>,
                           2 \<mapsto> \<lparr>key = 7, parent = 1\<rparr>],
             queue = [], history = []\<rparr>"

definition heap_g :: QueryHeap where
  "heap_g = \<lparr>inserted = [3 \<mapsto> \<lparr>key = 0, parent = 3\<rparr>, 2 \<mapsto> \<lparr>key = 4, parent = 3\<rparr>],
             queue = [], history = []\<rparr>"

definition tie_facade :: Facade where
  "tie_facade =
     \<lparr>BeginEdges = (\<lambda>n. if n = 0 then 0 else 2),
      EndEdges = (\<lambda>n. 2),
      GetTarget = (\<lambda>e. 1),
      GetEdgeData = (\<lambda>e.
        if e = 0 then \<lparr>id' = 200, shortcut = False, distance = 8, forward = True, backward = False\<rparr>
        else \<lparr>id' = 201, shortcut = False, distance = 5, forward = True, backward = False\<rparr>),
      GetNameIndexFromEdgeID = (\<lambda>i. i),
      GetTurnInstructionForEdgeID = (\<lambda>i. 0)\<rparr>"

definition max_facade :: Facade where
  "max_facade =
     \<lparr>BeginEdges = (\<lambda>n. if n = 0 then 0 else 1),
      EndEdges = (\<lambda>n. 1),
      GetTarget = (\<lambda>e. 1),
      GetEdgeData = (\<lambda>e.
        \<lparr>id' = 300, shortcut = False, distance = 2147483647, forward = True, backward = False\<rparr>),
      GetNameIndexFromEdgeID = (\<lambda>i. i),
      GetTurnInstructionForEdgeID = (\<lambda>i. 0)\<rparr>"

definition shortcut_facade :: Facade where
  "shortcut_facade =
     \<lparr>BeginEdges = (\<lambda>n. if n = 0 then 0 else if n = 1 then 2 else 3),
      EndEdges = (\<lambda>n. if n = 0 then 2 else 3),
      GetTarget = (\<lambda>e. if e = 0 then 1 else 2),
      GetEdgeData = (\<lambda>e.
        if e = 0 then \<lparr>id' = 400, shortcut = False, distance = 3, forward = True, backward = False\<rparr>
        else if e = 1 then \<lparr>id' = 1, shortcut = True, distance = 7, forward = True, backward = False\<rparr>
        else \<lparr>id' = 402, shortcut = False, distance = 4, forward = True, backward = False\<rparr>),
      GetNameIndexFromEdgeID = (\<lambda>i. i + 1),
      GetTurnInstructionForEdgeID = (\<lambda>i. 0)\<rparr>"

section \<open>Facts about the heap operations\<close>

lemma ebind_Inr [simp]: "ebind (Inr x) k = k x"
  by (simp add: ebind_def)

lemma ebind_Inl [simp]: "ebind (Inl e) k = Inl e"
  by (simp add: ebind_def)

lemma DeleteMin_Inr:
  assumes "DeleteMin h0 = Inr (node, h)"
  shows "inserted h = inserted h0"
    and "queue h = remove1 node (queue h0)"
    and "history h = history h0 @ [OpDeleteMin node]"
  using assms by (auto simp: DeleteMin_def Let_def split: list.splits)

lemma meet_update_eq:
  "meet_update s node dist =
     Inr (case inserted (reverse_heap s) node of
            None \<Rightarrow> s
          | Some e \<Rightarrow>
              if key e + dist <s upper_bound s \<and> 0 <=s key e + dist
              then s\<lparr>middle_node_id := node, upper_bound := key e + dist\<rparr>
              else s)"
  by (simp add: meet_update_def WasInserted_def GetKey_def Let_def split: option.splits)

lemma meet_update_heaps:
  assumes "meet_update s node dist = Inr s1"
  shows "forward_heap s1 = forward_heap s" and "reverse_heap s1 = reverse_heap s"
  using assms by (auto simp: meet_update_eq split: option.splits if_splits)

lemma stall_edge_range:
  "stall_edge facade h dist fd edge = Inr True \<or> stall_edge facade h dist fd edge = Inr False \<or>
   stall_edge facade h dist fd edge = Inl (InvariantViolation ''edge_weight invalid'')"
  by (auto simp: stall_edge_def Let_def WasInserted_def GetKey_def split: option.splits)

lemma stall_edge_staller:
  assumes "stalling_edge facade h dist fd edge"
  shows "stall_edge facade h dist fd edge \<noteq> Inr False"
  using assms
  by (auto simp: stalling_edge_def reverse_flag_def stall_edge_def Let_def WasInserted_def
      GetKey_def split: option.splits if_splits)

lemma stall_edge_positive:
  assumes "reverse_flag fd (GetEdgeData facade edge) \<longrightarrow> 0 <s distance (GetEdgeData facade edge)"
  shows "stall_edge facade h dist fd edge \<noteq> Inl e"
  using assms
  by (auto simp: reverse_flag_def stall_edge_def Let_def WasInserted_def
      GetKey_def split: option.splits if_splits)

lemma stall_scan_range:
  "stall_scan facade h dist fd es = Inr True \<or> stall_scan facade h dist fd es = Inr False \<or>
   stall_scan facade h dist fd es = Inl (InvariantViolation ''edge_weight invalid'')"
proof (induction es)
  case Nil
  then show ?case by simp
next
  case (Cons edge es)
  from stall_edge_range [of facade h dist fd edge] Cons show ?case
    by auto
qed

lemma stall_scan_staller:
  assumes "\<exists>edge \<in> set es. stalling_edge facade h dist fd edge"
  shows "stall_scan facade h dist fd es \<noteq> Inr False"
  using assms
proof (induction es)
  case Nil
  then show ?case by simp
next
  case (Cons edge es)
  show ?case
  proof (cases "stalling_edge facade h dist fd edge")
    case True
    from stall_edge_staller [OF True] stall_edge_range [of facade h dist fd edge]
    show ?thesis by auto
  next
    case False
    with Cons.prems have "\<exists>edge \<in> set es. stalling_edge facade h dist fd edge" by simp
    from Cons.IH [OF this] stall_edge_range [of facade h dist fd edge]
    show ?thesis by auto
  qed
qed

lemma stall_scan_positive:
  assumes "\<forall>edge \<in> set es. reverse_flag fd (GetEdgeData facade edge) \<longrightarrow>
             0 <s distance (GetEdgeData facade edge)"
  shows "stall_scan facade h dist fd es \<noteq> Inl e"
  using assms
proof (induction es)
  case Nil
  then show ?case by simp
next
  case (Cons edge es)
  then have "stall_edge facade h dist fd edge \<noteq> Inl e"
    by (simp add: stall_edge_positive)
  with Cons stall_edge_range [of facade h dist fd edge] show ?case
    by auto
qed

lemma RoutingStep_unfold:
  assumes "DeleteMin (forward_heap s) = Inr (node, h)"
      and "GetKey h node = Inr dist"
      and "meet_update (s\<lparr>forward_heap := h\<rparr>) node dist = Inr s1"
  shows "RoutingStep facade s off fd =
     (if upper_bound s1 <s dist - off
       then Inr (s1\<lparr>forward_heap := DeleteAll h\<rparr>)
       else
         ebind (stall_scan facade h dist fd (out_edges facade node)) (\<lambda>stalled.
           if stalled then Inr s1
           else
             ebind (relax_edges facade node dist fd h (out_edges facade node))
               (\<lambda>h'. Inr (s1\<lparr>forward_heap := h'\<rparr>))))"
  using assms by (simp add: RoutingStep_def)

lemma RoutingStep_bounds:
  assumes dm: "DeleteMin (forward_heap s) = Inr (node, h)"
      and gk: "GetKey h node = Inr dist"
      and mu: "meet_update (s\<lparr>forward_heap := h\<rparr>) node dist = Inr s1"
      and rs: "RoutingStep facade s off fd = Inr s'"
  shows "middle_node_id s' = middle_node_id s1 \<and> upper_bound s' = upper_bound s1"
  using rs unfolding RoutingStep_unfold [OF dm gk mu]
  by (auto simp: ebind_def split: if_splits sum.splits)

lemma relax_edges_append:
  "relax_edges facade node dist fd h (pre @ post) =
     ebind (relax_edges facade node dist fd h pre) (\<lambda>h1. relax_edges facade node dist fd h1 post)"
  by (induction pre arbitrary: h) (auto split: sum.splits)

lemma HeapEntry_update_both:
  "(e::HeapEntry)\<lparr>parent := p, key := k\<rparr> = \<lparr>key = k, parent = p\<rparr>"
  by (cases e) simp

lemma relax_edge_eq:
  assumes "direction_flag fd (GetEdgeData facade edge)"
      and "0 <s distance (GetEdgeData facade edge)"
  shows "relax_edge facade node dist fd h1 edge =
     Inr (case inserted h1 (GetTarget facade edge) of
            None \<Rightarrow>
              h1\<lparr>inserted := (inserted h1)(GetTarget facade edge \<mapsto>
                     \<lparr>key = dist + distance (GetEdgeData facade edge), parent = node\<rparr>),
                 queue := queue h1 @ [GetTarget facade edge],
                 history := history h1 @
                     [OpInsert (GetTarget facade edge) (dist + distance (GetEdgeData facade edge)) node]\<rparr>
          | Some e \<Rightarrow>
              if dist + distance (GetEdgeData facade edge) <s key e
              then h1\<lparr>inserted := (inserted h1)(GetTarget facade edge \<mapsto>
                          \<lparr>key = dist + distance (GetEdgeData facade edge), parent = node\<rparr>),
                      history := history h1 @
                          [OpSetParent (GetTarget facade edge) node,
                           OpDecreaseKey (GetTarget facade edge) (dist + distance (GetEdgeData facade edge))]\<rparr>
              else h1)"
  using assms
  by (auto simp: relax_edge_def direction_flag_def Let_def WasInserted_def GetKey_def Insert_def
      SetParent_def DecreaseKey_def HeapEntry_update_both split: option.splits)

lemma relax_edge_invalid:
  assumes "direction_flag fd (GetEdgeData facade edge)"
      and "\<not> 0 <s distance (GetEdgeData facade edge)"
  shows "relax_edge facade node dist fd h1 edge = Inl (InvariantViolation ''edge_weight invalid'')"
  using assms by (simp add: relax_edge_def direction_flag_def Let_def)

section \<open>The example search states evaluated\<close>

lemma ex_DeleteMin_a: "DeleteMin heap_a = Inr (2, heap_a')"
  by (simp add: DeleteMin_def heap_a_def heap_a'_def min_node_def)

lemma ex_GetKey_a: "GetKey heap_a' 2 = Inr 10"
  by (simp add: GetKey_def heap_a_def heap_a'_def)

lemma ex_meet_a: "meet_update (state_a\<lparr>forward_heap := heap_a'\<rparr>) 2 10 = Inr state_a1"
  by (simp add: meet_update_eq state_a_def state_a1_def heap_b_def INT_MAX_def
      word_sless_alt word_sle_eq)

lemma ex_meet_c: "meet_update (state_c\<lparr>forward_heap := heap_a'\<rparr>) 2 10 =
    Inr (state_c\<lparr>forward_heap := heap_a'\<rparr>)"
  by (simp add: meet_update_eq state_c_def heap_empty_def)

lemma ex_out_edges_2: "out_edges stall_facade 2 = [3]"
  by (simp add: out_edges_def stall_facade_def edges_from.simps)

lemma ex_DeleteMin_r: "DeleteMin heap_r = Inr (0, heap_r')"
  by (simp add: DeleteMin_def heap_r_def heap_r'_def min_node_def key_less_def word_sless_alt)

lemma ex_GetKey_r: "GetKey heap_r' 0 = Inr 0"
  by (simp add: GetKey_def heap_r_def heap_r'_def)

lemma ex_meet_r: "meet_update (state_r\<lparr>forward_heap := heap_r'\<rparr>) 0 0 =
    Inr (state_r\<lparr>forward_heap := heap_r'\<rparr>)"
  by (simp add: meet_update_eq state_r_def heap_empty_def)

lemma ex_out_edges_0: "out_edges stall_facade 0 = [0, 1]"
  by (simp add: out_edges_def stall_facade_def edges_from.simps)

lemma ex_relax_pre: "relax_edges stall_facade 0 0 True heap_r' [0] = Inr heap_r1"
  by (simp add: relax_edge_def stall_facade_def heap_r1_def heap_r'_def heap_r_def
      WasInserted_def Insert_def word_sless_alt)

lemma ex_RoutingStep_a: "RoutingStep stall_facade state_a 0 True = Inr state_a1"
proof -
  have dm: "DeleteMin (forward_heap state_a) = Inr (2, heap_a')"
    by (simp add: state_a_def ex_DeleteMin_a)
  have st: "stall_scan stall_facade heap_a' 10 True (out_edges stall_facade 2) = Inr True"
    unfolding ex_out_edges_2
    by (simp add: stall_edge_def stall_facade_def heap_a'_def heap_a_def
        WasInserted_def GetKey_def word_sless_alt)
  show ?thesis
    unfolding RoutingStep_unfold [OF dm ex_GetKey_a ex_meet_a] st
    by (simp add: state_a1_def word_sless_alt)
qed

section \<open>RoutingStep: termination check and stalling\<close>

text \<open>
  Claim C4. If, after the meet-in-the-middle update, \<open>dist - edge_expansion_offset\<close> is
  strictly greater than \<open>upper_bound\<close>, the call applies \<open>DeleteAll\<close> to the current-side
  heap and returns: whatever the graph, neither the stalling loop nor the relaxation loop
  runs, and the operations applied to the heap are \<open>DeleteMin\<close> followed by \<open>DeleteAll\<close>.
\<close>

theorem RoutingStep_termination_check:
  assumes dm: "DeleteMin (forward_heap s) = Inr (node, h)"
      and gk: "GetKey h node = Inr dist"
      and mu: "meet_update (s\<lparr>forward_heap := h\<rparr>) node dist = Inr s1"
      and gt: "upper_bound s1 <s dist - edge_expansion_offset"
  shows "RoutingStep facade s edge_expansion_offset forward_direction =
           Inr (s1\<lparr>forward_heap := DeleteAll h\<rparr>) \<and>
         history (DeleteAll h) = history (forward_heap s) @ [OpDeleteMin node, OpDeleteAll] \<and>
         reverse_heap s1 = reverse_heap s"
proof -
  have "history h = history (forward_heap s) @ [OpDeleteMin node]"
    by (rule DeleteMin_Inr(3) [OF dm])
  then have "history (DeleteAll h) = history (forward_heap s) @ [OpDeleteMin node, OpDeleteAll]"
    by (simp add: DeleteAll_def)
  moreover have "reverse_heap s1 = reverse_heap s"
    using meet_update_heaps(2) [OF mu] by simp
  ultimately show ?thesis
    using gt by (simp add: RoutingStep_unfold [OF dm gk mu])
qed

theorem RoutingStep_termination_check_witness:
  "DeleteMin (forward_heap state_c) = Inr (2, heap_a') \<and>
   GetKey heap_a' 2 = Inr 10 \<and>
   meet_update (state_c\<lparr>forward_heap := heap_a'\<rparr>) 2 10 = Inr (state_c\<lparr>forward_heap := heap_a'\<rparr>) \<and>
   upper_bound (state_c\<lparr>forward_heap := heap_a'\<rparr>) <s 10 - 0 \<and>
   RoutingStep stall_facade state_c 0 True = Inr (state_c\<lparr>forward_heap := DeleteAll heap_a'\<rparr>) \<and>
   history (DeleteAll heap_a') = [OpDeleteMin 2, OpDeleteAll]"
proof -
  have dm: "DeleteMin (forward_heap state_c) = Inr (2, heap_a')"
    by (simp add: state_c_def ex_DeleteMin_a)
  have ub: "upper_bound (state_c\<lparr>forward_heap := heap_a'\<rparr>) <s 10 - 0"
    by (simp add: state_c_def word_sless_alt)
  have hs: "history (forward_heap state_c) = []"
    by (simp add: state_c_def heap_a_def)
  from RoutingStep_termination_check [OF dm ex_GetKey_a ex_meet_c ub, of stall_facade True]
  show ?thesis
    using dm ex_GetKey_a ex_meet_c ub hs by simp
qed

text \<open>
  Claim C1. Let a call of \<open>RoutingStep\<close> extract \<open>node\<close> with key \<open>dist\<close> and pass the
  termination check. If some edge out of \<open>node\<close> has its reverse-direction flag set and leads
  to a node \<open>u\<close> inserted in the current-side heap with \<open>key u + weight < dist\<close>, the
  relaxation loop is never entered: the call returns the state left by the meet-in-the-middle
  update, whose current-side heap is the heap right after \<open>DeleteMin\<close>. The only other
  outcome is the failed assertion \<open>edge_weight > 0\<close> of the stalling loop, which needs an edge
  of non-positive weight; where the reverse-flagged edges out of \<open>node\<close> have positive
  weights the call returns.
\<close>

theorem RoutingStep_stall_on_demand:
  assumes dm: "DeleteMin (forward_heap s) = Inr (node, h)"
      and gk: "GetKey h node = Inr dist"
      and mu: "meet_update (s\<lparr>forward_heap := h\<rparr>) node dist = Inr s1"
      and nt: "\<not> upper_bound s1 <s dist - edge_expansion_offset"
      and ex: "\<exists>edge \<in> set (out_edges facade node). stalling_edge facade h dist forward_direction edge"
  shows "(RoutingStep facade s edge_expansion_offset forward_direction = Inr s1 \<or>
          RoutingStep facade s edge_expansion_offset forward_direction =
            Inl (InvariantViolation ''edge_weight invalid'')) \<and>
         ((\<forall>edge \<in> set (out_edges facade node).
             reverse_flag forward_direction (GetEdgeData facade edge) \<longrightarrow>
             0 <s distance (GetEdgeData facade edge)) \<longrightarrow>
          RoutingStep facade s edge_expansion_offset forward_direction = Inr s1) \<and>
         forward_heap s1 = h"
proof -
  let ?scan = "stall_scan facade h dist forward_direction (out_edges facade node)"
  have step: "RoutingStep facade s edge_expansion_offset forward_direction =
      ebind ?scan (\<lambda>stalled.
           if stalled then Inr s1
           else
             ebind (relax_edges facade node dist forward_direction h (out_edges facade node))
               (\<lambda>h'. Inr (s1\<lparr>forward_heap := h'\<rparr>)))"
    using nt by (simp add: RoutingStep_unfold [OF dm gk mu])
  have ne: "?scan \<noteq> Inr False"
    by (rule stall_scan_staller [OF ex])
  have rg: "?scan = Inr True \<or> ?scan = Inl (InvariantViolation ''edge_weight invalid'')"
    using ne stall_scan_range [of facade h dist forward_direction "out_edges facade node"]
    by blast
  have a: "RoutingStep facade s edge_expansion_offset forward_direction = Inr s1 \<or>
          RoutingStep facade s edge_expansion_offset forward_direction =
            Inl (InvariantViolation ''edge_weight invalid'')"
    using rg by (auto simp: step)
  have b: "RoutingStep facade s edge_expansion_offset forward_direction = Inr s1"
    if "\<forall>edge \<in> set (out_edges facade node).
             reverse_flag forward_direction (GetEdgeData facade edge) \<longrightarrow>
             0 <s distance (GetEdgeData facade edge)"
  proof -
    have "?scan \<noteq> Inl (InvariantViolation ''edge_weight invalid'')"
      by (rule stall_scan_positive [OF that])
    with rg have "?scan = Inr True" by blast
    then show ?thesis by (simp add: step)
  qed
  have c: "forward_heap s1 = h"
    using meet_update_heaps(1) [OF mu] by simp
  from a b c show ?thesis by blast
qed

theorem RoutingStep_stall_on_demand_witness:
  "DeleteMin (forward_heap state_a) = Inr (2, heap_a') \<and>
   GetKey heap_a' 2 = Inr 10 \<and>
   meet_update (state_a\<lparr>forward_heap := heap_a'\<rparr>) 2 10 = Inr state_a1 \<and>
   \<not> upper_bound state_a1 <s 10 - 0 \<and>
   (\<exists>edge \<in> set (out_edges stall_facade 2). stalling_edge stall_facade heap_a' 10 True edge) \<and>
   RoutingStep stall_facade state_a 0 True = Inr state_a1"
proof -
  have dm: "DeleteMin (forward_heap state_a) = Inr (2, heap_a')"
    by (simp add: state_a_def ex_DeleteMin_a)
  have nt: "\<not> upper_bound state_a1 <s 10 - 0"
    by (simp add: state_a1_def word_sless_alt)
  have ex: "\<exists>edge \<in> set (out_edges stall_facade 2). stalling_edge stall_facade heap_a' 10 True edge"
    unfolding ex_out_edges_2
    by (simp add: stalling_edge_def reverse_flag_def stall_facade_def
        heap_a'_def heap_a_def word_sless_alt)
  have ps: "\<forall>edge \<in> set (out_edges stall_facade 2).
       reverse_flag True (GetEdgeData stall_facade edge) \<longrightarrow>
       0 <s distance (GetEdgeData stall_facade edge)"
    unfolding ex_out_edges_2
    by (simp add: reverse_flag_def stall_facade_def word_sless_alt)
  from RoutingStep_stall_on_demand [OF dm ex_GetKey_a ex_meet_a nt ex] ps
  have "RoutingStep stall_facade state_a 0 True = Inr state_a1"
    by blast
  with dm ex_GetKey_a ex_meet_a nt ex show ?thesis
    by blast
qed

text \<open>
  Claim C10. When \<open>RoutingStep\<close> returns through the stalling loop, the only operation it
  has applied to the current-side heap is the \<open>DeleteMin\<close> of the extracted node (the
  entries are those of before, the queue has lost the node, the history has grown by this
  one operation), and the opposite heap is the one of before; \<open>middle_node_id\<close> and
  \<open>upper_bound\<close> are those left by the meet-in-the-middle update.
\<close>

theorem RoutingStep_stall_frame:
  assumes dm: "DeleteMin (forward_heap s) = Inr (node, h)"
      and gk: "GetKey h node = Inr dist"
      and mu: "meet_update (s\<lparr>forward_heap := h\<rparr>) node dist = Inr s1"
      and nt: "\<not> upper_bound s1 <s dist - edge_expansion_offset"
      and st: "stall_scan facade h dist forward_direction (out_edges facade node) = Inr True"
  shows "RoutingStep facade s edge_expansion_offset forward_direction = Inr s1 \<and>
         reverse_heap s1 = reverse_heap s \<and>
         inserted (forward_heap s1) = inserted (forward_heap s) \<and>
         queue (forward_heap s1) = remove1 node (queue (forward_heap s)) \<and>
         history (forward_heap s1) = history (forward_heap s) @ [OpDeleteMin node]"
proof -
  have "RoutingStep facade s edge_expansion_offset forward_direction = Inr s1"
    using nt st by (simp add: RoutingStep_unfold [OF dm gk mu])
  moreover have "forward_heap s1 = h" "reverse_heap s1 = reverse_heap s"
    using meet_update_heaps [OF mu] by simp_all
  ultimately show ?thesis
    using DeleteMin_Inr [OF dm] by simp
qed

theorem RoutingStep_stall_frame_witness:
  "DeleteMin (forward_heap state_a) = Inr (2, heap_a') \<and>
   GetKey heap_a' 2 = Inr 10 \<and>
   meet_update (state_a\<lparr>forward_heap := heap_a'\<rparr>) 2 10 = Inr state_a1 \<and>
   \<not> upper_bound state_a1 <s 10 - 0 \<and>
   stall_scan stall_facade heap_a' 10 True (out_edges stall_facade 2) = Inr True \<and>
   RoutingStep stall_facade state_a 0 True = Inr state_a1 \<and>
   reverse_heap state_a1 = reverse_heap state_a \<and>
   history (forward_heap state_a1) = history (forward_heap state_a) @ [OpDeleteMin 2]"
proof -
  have dm: "DeleteMin (forward_heap state_a) = Inr (2, heap_a')"
    by (simp add: state_a_def ex_DeleteMin_a)
  have nt: "\<not> upper_bound state_a1 <s 10 - 0"
    by (simp add: state_a1_def word_sless_alt)
  have st: "stall_scan stall_facade heap_a' 10 True (out_edges stall_facade 2) = Inr True"
    unfolding ex_out_edges_2
    by (simp add: stall_edge_def stall_facade_def heap_a'_def heap_a_def
        WasInserted_def GetKey_def word_sless_alt)
  from RoutingStep_stall_frame [OF dm ex_GetKey_a ex_meet_a nt st]
  show ?thesis
    using dm ex_GetKey_a ex_meet_a nt st by blast
qed

section \<open>RoutingStep: meeting node and relaxation\<close>

text \<open>
  Claim C3. In a call of \<open>RoutingStep\<close> that returns, with \<open>node\<close> the extracted node and
  \<open>dist\<close> its key: \<open>middle_node_id\<close> and \<open>upper_bound\<close> change exactly when \<open>node\<close> was
  inserted in the opposite heap and \<open>candidate = key + dist\<close> satisfies
  \<open>0 \<le> candidate < upper_bound\<close>; they then become \<open>node\<close> and \<open>candidate\<close>, and the
  new bound is strictly below the old one. Otherwise both keep their values; in particular
  a candidate equal to the bound changes nothing.
\<close>

theorem RoutingStep_meeting_update:
  assumes rs: "RoutingStep facade s edge_expansion_offset forward_direction = Inr s'"
  shows "\<exists>node h dist.
           DeleteMin (forward_heap s) = Inr (node, h) \<and> GetKey h node = Inr dist \<and>
           (case inserted (reverse_heap s) node of
              None \<Rightarrow> middle_node_id s' = middle_node_id s \<and> upper_bound s' = upper_bound s
            | Some e \<Rightarrow>
                (let candidate = key e + dist in
                 if 0 <=s candidate \<and> candidate <s upper_bound s
                 then middle_node_id s' = node \<and> upper_bound s' = candidate \<and>
                      upper_bound s' <s upper_bound s
                 else middle_node_id s' = middle_node_id s \<and> upper_bound s' = upper_bound s))"
proof -
  from rs obtain node h where dm: "DeleteMin (forward_heap s) = Inr (node, h)"
    by (cases "DeleteMin (forward_heap s)") (auto simp: RoutingStep_def)
  from rs dm obtain dist where gk: "GetKey h node = Inr dist"
    by (cases "GetKey h node") (auto simp: RoutingStep_def)
  obtain s1 where mu: "meet_update (s\<lparr>forward_heap := h\<rparr>) node dist = Inr s1"
    by (simp add: meet_update_eq)
  from RoutingStep_bounds [OF dm gk mu rs]
  have eq: "middle_node_id s' = middle_node_id s1" "upper_bound s' = upper_bound s1"
    by simp_all
  from mu have "(case inserted (reverse_heap s) node of
              None \<Rightarrow> middle_node_id s' = middle_node_id s \<and> upper_bound s' = upper_bound s
            | Some e \<Rightarrow>
                (let candidate = key e + dist in
                 if 0 <=s candidate \<and> candidate <s upper_bound s
                 then middle_node_id s' = node \<and> upper_bound s' = candidate \<and>
                      upper_bound s' <s upper_bound s
                 else middle_node_id s' = middle_node_id s \<and> upper_bound s' = upper_bound s))"
    unfolding eq by (auto simp: meet_update_eq Let_def split: option.splits)
  with dm gk show ?thesis
    by blast
qed

theorem RoutingStep_meeting_update_witness:
  "RoutingStep stall_facade state_a 0 True = Inr state_a1 \<and>
   DeleteMin (forward_heap state_a) = Inr (2, heap_a') \<and> GetKey heap_a' 2 = Inr 10 \<and>
   inserted (reverse_heap state_a) 2 = Some \<lparr>key = 0, parent = 2\<rparr> \<and>
   upper_bound state_a = INT_MAX \<and>
   middle_node_id state_a1 = 2 \<and> upper_bound state_a1 = 10 \<and>
   upper_bound state_a1 <s upper_bound state_a"
proof -
  have dm: "DeleteMin (forward_heap state_a) = Inr (2, heap_a')"
    by (simp add: state_a_def ex_DeleteMin_a)
  have rv: "inserted (reverse_heap state_a) 2 = Some \<lparr>key = 0, parent = 2\<rparr>"
    by (simp add: state_a_def heap_b_def)
  have ub: "upper_bound state_a = INT_MAX"
    by (simp add: state_a_def)
  have cd: "0 <=s (0::int32) + 10 \<and> (0::int32) + 10 <s INT_MAX"
    by (simp add: INT_MAX_def word_sless_alt word_sle_eq)
  from RoutingStep_meeting_update [OF ex_RoutingStep_a]
  have "middle_node_id state_a1 = 2 \<and> upper_bound state_a1 = 10 \<and>
      upper_bound state_a1 <s upper_bound state_a"
    using dm ex_GetKey_a rv ub cd by (auto simp: Let_def)
  with ex_RoutingStep_a dm ex_GetKey_a rv ub show ?thesis
    by blast
qed

text \<open>
  Claim C2. Let a call of \<open>RoutingStep\<close> reach the relaxation loop, and let \<open>edge\<close> be an
  edge \<open>node \<rightarrow> v\<close> of the loop whose current-direction flag is set, reached with the heap
  \<open>h1\<close>; let \<open>v_distance = dist + weight\<close>. If \<open>v\<close> was never inserted in \<open>h1\<close>, it is
  inserted with key \<open>v_distance\<close> and parent \<open>node\<close>; otherwise, if \<open>v_distance\<close> is strictly
  smaller than the key of \<open>v\<close>, the parent of \<open>v\<close> becomes \<open>node\<close> and its key \<open>v_distance\<close>;
  otherwise the heap stays as it is. The loop goes on with that heap. (An edge of
  non-positive weight fails the assertion of the loop instead.)
\<close>

theorem RoutingStep_relaxation:
  assumes dm: "DeleteMin (forward_heap s) = Inr (node, h)"
      and gk: "GetKey h node = Inr dist"
      and mu: "meet_update (s\<lparr>forward_heap := h\<rparr>) node dist = Inr s1"
      and nt: "\<not> upper_bound s1 <s dist - edge_expansion_offset"
      and ns: "stall_scan facade h dist forward_direction (out_edges facade node) = Inr False"
      and sp: "out_edges facade node = pre @ edge # post"
      and rp: "relax_edges facade node dist forward_direction h pre = Inr h1"
      and fl: "direction_flag forward_direction (GetEdgeData facade edge)"
  shows "let v = GetTarget facade edge;
             v_distance = dist + distance (GetEdgeData facade edge);
             h2 = (case inserted h1 v of
                     None \<Rightarrow>
                       h1\<lparr>inserted := (inserted h1)(v \<mapsto> \<lparr>key = v_distance, parent = node\<rparr>),
                          queue := queue h1 @ [v],
                          history := history h1 @ [OpInsert v v_distance node]\<rparr>
                   | Some e \<Rightarrow>
                       if v_distance <s key e
                       then h1\<lparr>inserted := (inserted h1)(v \<mapsto> \<lparr>key = v_distance, parent = node\<rparr>),
                               history := history h1 @
                                 [OpSetParent v node, OpDecreaseKey v v_distance]\<rparr>
                       else h1)
         in if 0 <s distance (GetEdgeData facade edge)
            then relax_edge facade node dist forward_direction h1 edge = Inr h2 \<and>
                 RoutingStep facade s edge_expansion_offset forward_direction =
                   ebind (relax_edges facade node dist forward_direction h2 post)
                     (\<lambda>h'. Inr (s1\<lparr>forward_heap := h'\<rparr>))
            else RoutingStep facade s edge_expansion_offset forward_direction =
                   Inl (InvariantViolation ''edge_weight invalid'')"
proof -
  have step: "RoutingStep facade s edge_expansion_offset forward_direction =
      ebind (ebind (relax_edge facade node dist forward_direction h1 edge)
               (\<lambda>h2. relax_edges facade node dist forward_direction h2 post))
        (\<lambda>h'. Inr (s1\<lparr>forward_heap := h'\<rparr>))"
    using nt ns rp
    by (simp add: RoutingStep_unfold [OF dm gk mu] sp relax_edges_append ebind_def
        split: sum.splits)
  show ?thesis
  proof (cases "0 <s distance (GetEdgeData facade edge)")
    case True
    show ?thesis
      using True by (simp add: step Let_def relax_edge_eq [OF fl True])
  next
    case False
    show ?thesis
      using False by (simp add: step Let_def relax_edge_invalid [OF fl False])
  qed
qed

theorem RoutingStep_relaxation_witness:
  "DeleteMin (forward_heap state_r) = Inr (0, heap_r') \<and>
   GetKey heap_r' 0 = Inr 0 \<and>
   meet_update (state_r\<lparr>forward_heap := heap_r'\<rparr>) 0 0 = Inr (state_r\<lparr>forward_heap := heap_r'\<rparr>) \<and>
   \<not> upper_bound (state_r\<lparr>forward_heap := heap_r'\<rparr>) <s 0 - 0 \<and>
   stall_scan stall_facade heap_r' 0 True (out_edges stall_facade 0) = Inr False \<and>
   out_edges stall_facade 0 = [0] @ 1 # [] \<and>
   relax_edges stall_facade 0 0 True heap_r' [0] = Inr heap_r1 \<and>
   direction_flag True (GetEdgeData stall_facade 1) \<and>
   relax_edge stall_facade 0 0 True heap_r1 1 = Inr heap_r2 \<and>
   RoutingStep stall_facade state_r 0 True = Inr (state_r\<lparr>forward_heap := heap_r2\<rparr>)"
proof -
  have dm: "DeleteMin (forward_heap state_r) = Inr (0, heap_r')"
    by (simp add: state_r_def ex_DeleteMin_r)
  have nt: "\<not> upper_bound (state_r\<lparr>forward_heap := heap_r'\<rparr>) <s 0 - 0"
    by (simp add: state_r_def INT_MAX_def word_sless_alt)
  have ns: "stall_scan stall_facade heap_r' 0 True (out_edges stall_facade 0) = Inr False"
    unfolding ex_out_edges_0
    by (simp add: stall_edge_def stall_facade_def)
  have sp: "out_edges stall_facade 0 = [0] @ 1 # []"
    by (simp add: ex_out_edges_0)
  have fl: "direction_flag True (GetEdgeData stall_facade 1)"
    by (simp add: direction_flag_def stall_facade_def)
  have wt: "0 <s distance (GetEdgeData stall_facade 1)"
    by (simp add: stall_facade_def word_sless_alt)
  have tg: "GetTarget stall_facade 1 = 2" "distance (GetEdgeData stall_facade 1) = 10"
    by (simp_all add: stall_facade_def)
  have en: "inserted heap_r1 2 = Some \<lparr>key = 50, parent = 5\<rparr>"
    by (simp add: heap_r1_def heap_r'_def heap_r_def)
  have h2: "heap_r1\<lparr>inserted := (inserted heap_r1)(2 \<mapsto> \<lparr>key = 10, parent = 0\<rparr>),
                   history := history heap_r1 @ [OpSetParent 2 0, OpDecreaseKey 2 10]\<rparr> = heap_r2"
    by (simp add: heap_r2_def heap_r1_def)
  from RoutingStep_relaxation [OF dm ex_GetKey_r ex_meet_r nt ns sp ex_relax_pre fl]
  have "relax_edge stall_facade 0 0 True heap_r1 1 = Inr heap_r2 \<and>
        RoutingStep stall_facade state_r 0 True = Inr (state_r\<lparr>forward_heap := heap_r2\<rparr>)"
    using wt by (simp add: Let_def tg en h2 word_sless_alt)
  with dm ex_GetKey_r ex_meet_r nt ns sp ex_relax_pre fl show ?thesis
    by blast
qed
section \<open>Packed path extraction\<close>

lemma parent_walk_chain:
  "parent_chain heap x ps \<Longrightarrow> parent_walk heap x acc = Some (Inr (acc @ ps))"
proof (induction ps arbitrary: x acc)
  case Nil
  then show ?case
    by (subst parent_walk.simps) (auto simp: GetData_def split: option.splits)
next
  case (Cons p ps)
  from Cons.prems obtain e where e: "inserted heap x = Some e" "parent e = p" "p \<noteq> x"
    and ch: "parent_chain heap p ps"
    by (auto split: option.splits)
  from Cons.IH [OF ch, of "acc @ [p]"] e show ?case
    by (subst parent_walk.simps) (auto simp: GetData_def)
qed

text \<open>
  Claim C8. When the parents in the forward heap lead from the meeting node through the
  nodes \<open>forward_chain\<close> to a node that is its own parent, and the parents in the reverse
  heap lead from it through \<open>reverse_chain\<close> to such a node, then
  \<open>RetrievePackedPathFromHeap\<close> returns, and its result is the forward chain reversed,
  the meeting node, and the reverse chain: \<open>[source, \<dots>, meeting node, \<dots>, target]\<close>.
  (What \<open>packed_path\<close> holds at the call is reversed together with the forward chain.)
\<close>

theorem RetrievePackedPathFromHeap_chains:
  assumes "parent_chain forward_heap' middle forward_chain"
      and "parent_chain reverse_heap' middle reverse_chain"
  shows "RetrievePackedPathFromHeap forward_heap' reverse_heap' middle packed_path =
           Some (Inr (rev (packed_path @ forward_chain) @ [middle] @ reverse_chain)) \<and>
         RetrievePackedPathFromHeap forward_heap' reverse_heap' middle [] =
           Some (Inr (rev forward_chain @ [middle] @ reverse_chain))"
  using assms by (simp add: RetrievePackedPathFromHeap_def parent_walk_chain)

theorem RetrievePackedPathFromHeap_chains_witness:
  "parent_chain heap_f 2 [1, 0] \<and> parent_chain heap_g 2 [3] \<and>
   RetrievePackedPathFromHeap heap_f heap_g 2 [] = Some (Inr [0, 1, 2, 3])"
proof -
  have f: "parent_chain heap_f 2 [1, 0]"
    by (simp add: heap_f_def)
  have g: "parent_chain heap_g 2 [3]"
    by (simp add: heap_g_def)
  from RetrievePackedPathFromHeap_chains [OF f g, of "[]"]
  have "RetrievePackedPathFromHeap heap_f heap_g 2 [] = Some (Inr [0, 1, 2, 3])"
    by simp
  with f g show ?thesis by blast
qed

section \<open>UnpackPath: seeding the stack\<close>

lemma last_index_in_bounds:
  assumes "0 < n"
  shows "unat ((of_nat n :: 32 word) - 1) < n"
proof (cases "(of_nat n :: 32 word) = 0")
  case True
  then have "unat (of_nat n :: 32 word) = 0"
    by simp
  then have "n mod 2 ^ 32 = 0"
    by (simp add: unat_of_nat)
  with assms have "2 ^ 32 \<le> n"
    by (auto simp: mod_eq_0_iff_dvd dest: dvd_imp_le)
  moreover have "unat ((0 :: 32 word) - 1) < 2 ^ 32"
    using unsigned_less [of "(0 :: 32 word) - 1", where ?'a = nat] by simp
  ultimately show ?thesis
    using True by simp
next
  case False
  then have "unat ((of_nat n :: 32 word) - 1) < unat (of_nat n :: 32 word)"
    by unat_arith
  also have "unat (of_nat n :: 32 word) \<le> n"
    by (simp add: unat_of_nat)
  finally show ?thesis .
qed

lemma seed_stack_pairs:
  "unat i < length packed_path \<Longrightarrow>
   seed_stack packed_path i recursion_stack =
     Inr (map (\<lambda>j. (packed_path ! j, packed_path ! Suc j)) [0..<unat i] @ recursion_stack)"
proof (induction packed_path i recursion_stack rule: seed_stack.induct)
  case (1 packed_path i recursion_stack)
  show ?case
  proof (cases "0 < i")
    case True
    then have lt: "unat i = Suc (unat (i - 1))"
      by unat_arith
    with "1.prems" have b: "unat (i - 1) < length packed_path \<and> unat i < length packed_path"
      by simp
    have "seed_stack packed_path i recursion_stack =
        seed_stack packed_path (i - 1)
          ((packed_path ! unat (i - 1), packed_path ! unat i) # recursion_stack)"
      using True b by (subst seed_stack.simps) simp
    also have "\<dots> = Inr (map (\<lambda>j. (packed_path ! j, packed_path ! Suc j)) [0..<unat (i - 1)] @
        (packed_path ! unat (i - 1), packed_path ! unat i) # recursion_stack)"
      using "1.IH" [OF True b] b by simp
    also have "\<dots> = Inr (map (\<lambda>j. (packed_path ! j, packed_path ! Suc j)) [0..<unat i] @
        recursion_stack)"
      by (simp add: lt)
    finally show ?thesis .
  next
    case False
    then have "i = 0"
      by (simp add: word_gt_0)
    then show ?thesis
      by (subst seed_stack.simps) simp
  qed
qed

text \<open>
  Claim C9. For a non-empty \<open>packed_path\<close> the seeding loop of \<open>UnpackPath\<close> reads
  \<open>packed_path\<close> within its bounds only: it ends with the stack of the adjacent pairs
  below its start index, and \<open>UnpackPath\<close> goes on to the unpacking loop. For the empty
  \<open>packed_path\<close> the unsigned \<open>packed_path_size - 1\<close> wraps around to \<open>4294967295\<close>, the
  loop is entered, and the first read is out of bounds.
\<close>

theorem UnpackPath_seeding_bounds:
  "(packed_path \<noteq> [] \<longrightarrow>
      seed_stack packed_path (of_nat (length packed_path) - 1) [] =
        Inr (map (\<lambda>j. (packed_path ! j, packed_path ! Suc j))
               [0..<unat ((of_nat (length packed_path) :: 32 word) - 1)]) \<and>
      unat ((of_nat (length packed_path) :: 32 word) - 1) < length packed_path \<and>
      UnpackPath facade packed_path unpacked_path =
        unpack_path_loop facade
          (map (\<lambda>j. (packed_path ! j, packed_path ! Suc j))
             [0..<unat ((of_nat (length packed_path) :: 32 word) - 1)]) unpacked_path) \<and>
   (of_nat (length ([] :: NodeID list)) :: 32 word) - 1 = 4294967295 \<and>
   seed_stack [] (of_nat (length ([] :: NodeID list)) - 1) [] = Inl OutOfBounds \<and>
   UnpackPath facade [] unpacked_path = Some (Inl OutOfBounds)"
proof -
  have e: "seed_stack [] (- 1 :: 32 word) [] = Inl OutOfBounds"
    by (subst seed_stack.simps) (simp add: word_gt_0)
  have a: "seed_stack packed_path (of_nat (length packed_path) - 1) [] =
        Inr (map (\<lambda>j. (packed_path ! j, packed_path ! Suc j))
               [0..<unat ((of_nat (length packed_path) :: 32 word) - 1)]) \<and>
      unat ((of_nat (length packed_path) :: 32 word) - 1) < length packed_path \<and>
      UnpackPath facade packed_path unpacked_path =
        unpack_path_loop facade
          (map (\<lambda>j. (packed_path ! j, packed_path ! Suc j))
             [0..<unat ((of_nat (length packed_path) :: 32 word) - 1)]) unpacked_path"
    if "packed_path \<noteq> []"
  proof -
    from that have b: "unat ((of_nat (length packed_path) :: 32 word) - 1) < length packed_path"
      by (simp add: last_index_in_bounds)
    from seed_stack_pairs [OF b, of "[]"] b show ?thesis
      by (simp add: UnpackPath_def)
  qed
  from a e show ?thesis
    by (simp add: UnpackPath_def)
qed

theorem UnpackPath_seeding_bounds_witness:
  "[0, 1, 2 :: NodeID] \<noteq> [] \<and>
   seed_stack [0, 1, 2] (of_nat (length [0, 1, 2 :: NodeID]) - 1) [] = Inr [(0, 1), (1, 2)]"
proof -
  have n: "[0, 1, 2 :: NodeID] \<noteq> []"
    by simp
  have u: "[0..<2] = [0, Suc 0]"
    by (simp add: upt_rec)
  from UnpackPath_seeding_bounds [of "[0, 1, 2]"] n
  have "seed_stack [0, 1, 2] (of_nat (length [0, 1, 2 :: NodeID]) - 1) [] = Inr [(0, 1), (1, 2)]"
    by (simp add: u)
  with n show ?thesis by blast
qed
section \<open>Edge selection\<close>

lemma select_edge_eq:
  "select_edge facade target fl x (s0, w0) =
     (if candidate facade target fl x \<and> distance (GetEdgeData facade x) <s w0
      then (x, distance (GetEdgeData facade x)) else (s0, w0))"
  by (auto simp: select_edge_def candidate_def direction_flag_def Let_def)

lemma fold_select_edge:
  "fold (select_edge facade target fl) es (s0, w0) = (sid, w) \<Longrightarrow>
     (sid = s0 \<and> w = w0 \<and>
      (\<forall>e \<in> set es. candidate facade target fl e \<longrightarrow> \<not> distance (GetEdgeData facade e) <s w0)) \<or>
     (w <s w0 \<and> w = distance (GetEdgeData facade sid) \<and>
      (\<exists>pre post. es = pre @ sid # post \<and> candidate facade target fl sid \<and>
         (\<forall>e \<in> set pre. candidate facade target fl e \<longrightarrow> w <s distance (GetEdgeData facade e)) \<and>
         (\<forall>e \<in> set post. candidate facade target fl e \<longrightarrow> w <=s distance (GetEdgeData facade e))))"
proof (induction es arbitrary: s0 w0)
  case Nil
  then show ?case by simp
next
  case (Cons x xs)
  let ?wx = "distance (GetEdgeData facade x)"
  show ?case
  proof (cases "candidate facade target fl x \<and> ?wx <s w0")
    case True
    with Cons.prems have "fold (select_edge facade target fl) xs (x, ?wx) = (sid, w)"
      by (simp add: select_edge_eq)
    from Cons.IH [OF this] show ?thesis
    proof
      assume a: "sid = x \<and> w = ?wx \<and>
        (\<forall>e \<in> set xs. candidate facade target fl e \<longrightarrow> \<not> distance (GetEdgeData facade e) <s ?wx)"
      then have "x # xs = [] @ sid # xs" by simp
      moreover from a have "\<forall>e \<in> set xs. candidate facade target fl e \<longrightarrow>
          w <=s distance (GetEdgeData facade e)"
        by (auto simp: word_sless_alt word_sle_eq)
      ultimately have "\<exists>pre post. x # xs = pre @ sid # post \<and> candidate facade target fl sid \<and>
         (\<forall>e \<in> set pre. candidate facade target fl e \<longrightarrow> w <s distance (GetEdgeData facade e)) \<and>
         (\<forall>e \<in> set post. candidate facade target fl e \<longrightarrow> w <=s distance (GetEdgeData facade e))"
        using a True by (intro exI [of _ "[]"] exI [of _ xs]) simp
      with a True show ?thesis by simp
    next
      assume b: "w <s ?wx \<and> w = distance (GetEdgeData facade sid) \<and>
        (\<exists>pre post. xs = pre @ sid # post \<and> candidate facade target fl sid \<and>
           (\<forall>e \<in> set pre. candidate facade target fl e \<longrightarrow> w <s distance (GetEdgeData facade e)) \<and>
           (\<forall>e \<in> set post. candidate facade target fl e \<longrightarrow> w <=s distance (GetEdgeData facade e)))"
      then obtain pre post where pp: "xs = pre @ sid # post" "candidate facade target fl sid"
          "\<forall>e \<in> set pre. candidate facade target fl e \<longrightarrow> w <s distance (GetEdgeData facade e)"
          "\<forall>e \<in> set post. candidate facade target fl e \<longrightarrow> w <=s distance (GetEdgeData facade e)"
        by blast
      from b True have lt: "w <s w0"
        by (auto simp: word_sless_alt)
      have "x # xs = (x # pre) @ sid # post"
        using pp(1) by simp
      moreover from b have "w <s ?wx"
        by blast
      then have "\<forall>e \<in> set (x # pre). candidate facade target fl e \<longrightarrow>
          w <s distance (GetEdgeData facade e)"
        using pp(3) by simp
      ultimately have "\<exists>pre post. x # xs = pre @ sid # post \<and> candidate facade target fl sid \<and>
         (\<forall>e \<in> set pre. candidate facade target fl e \<longrightarrow> w <s distance (GetEdgeData facade e)) \<and>
         (\<forall>e \<in> set post. candidate facade target fl e \<longrightarrow> w <=s distance (GetEdgeData facade e))"
        using pp(2,4) by blast
      with lt b show ?thesis by blast
    qed
  next
    case False
    with Cons.prems have "fold (select_edge facade target fl) xs (s0, w0) = (sid, w)"
      by (simp add: select_edge_eq)
    from Cons.IH [OF this] show ?thesis
    proof
      assume a: "sid = s0 \<and> w = w0 \<and>
        (\<forall>e \<in> set xs. candidate facade target fl e \<longrightarrow> \<not> distance (GetEdgeData facade e) <s w0)"
      with False show ?thesis by auto
    next
      assume b: "w <s w0 \<and> w = distance (GetEdgeData facade sid) \<and>
        (\<exists>pre post. xs = pre @ sid # post \<and> candidate facade target fl sid \<and>
           (\<forall>e \<in> set pre. candidate facade target fl e \<longrightarrow> w <s distance (GetEdgeData facade e)) \<and>
           (\<forall>e \<in> set post. candidate facade target fl e \<longrightarrow> w <=s distance (GetEdgeData facade e)))"
      then obtain pre post where pp: "xs = pre @ sid # post" "candidate facade target fl sid"
          "\<forall>e \<in> set pre. candidate facade target fl e \<longrightarrow> w <s distance (GetEdgeData facade e)"
          "\<forall>e \<in> set post. candidate facade target fl e \<longrightarrow> w <=s distance (GetEdgeData facade e)"
        by blast
      have "candidate facade target fl x \<longrightarrow> w <s ?wx"
        using False b by (auto simp: word_sless_alt)
      then have "\<forall>e \<in> set (x # pre). candidate facade target fl e \<longrightarrow>
          w <s distance (GetEdgeData facade e)"
        using pp(3) by simp
      moreover have "x # xs = (x # pre) @ sid # post"
        using pp(1) by simp
      ultimately have "\<exists>pre post. x # xs = pre @ sid # post \<and> candidate facade target fl sid \<and>
         (\<forall>e \<in> set pre. candidate facade target fl e \<longrightarrow> w <s distance (GetEdgeData facade e)) \<and>
         (\<forall>e \<in> set post. candidate facade target fl e \<longrightarrow> w <=s distance (GetEdgeData facade e))"
        using pp(2,4) by blast
      with b show ?thesis by blast
    qed
  qed
qed

lemma edges_from_less: "e \<in> set (edges_from b en) \<Longrightarrow> e < en"
proof (induction b en rule: edges_from.induct)
  case (1 edge end_edge)
  then show ?case
    by (subst (asm) (2) edges_from.simps) (auto split: if_splits)
qed

lemma out_edges_not_special: "e \<in> set (out_edges facade n) \<Longrightarrow> e \<noteq> SPECIAL_EDGEID"
proof -
  assume "e \<in> set (out_edges facade n)"
  then have "e < EndEdges facade n"
    by (simp add: out_edges_def edges_from_less)
  then have "unat e < unat (EndEdges facade n)"
    by (simp add: word_less_nat_alt)
  moreover have "unat (EndEdges facade n) < 2 ^ 32"
    using unsigned_less [of "EndEdges facade n", where ?'a = nat] by simp
  ultimately have "unat e \<noteq> 4294967295"
    by simp
  then show ?thesis
    by (auto simp: SPECIAL_EDGEID_def)
qed

lemma sless_INT_MAX_neq: "w <s INT_MAX \<Longrightarrow> w \<noteq> INT_MAX"
  by (auto simp: word_sless_alt)

lemma find_smaller_edge_cases:
  "(if \<exists>e \<in> set (out_edges facade a). usable facade b True e
    then \<exists>e. find_smaller_edge facade msg (a, b) = Inr e \<and> first_lightest facade a b True e
    else if \<exists>e \<in> set (out_edges facade b). usable facade a False e
    then \<exists>e. find_smaller_edge facade msg (a, b) = Inr e \<and> first_lightest facade b a False e
    else find_smaller_edge facade msg (a, b) = Inl (InvariantViolation msg))"
proof -
  obtain s1 w1 where r1: "fold (select_edge facade b True) (out_edges facade a)
      (SPECIAL_EDGEID, INT_MAX) = (s1, w1)"
    by fastforce
  obtain s2 w2 where r2: "fold (select_edge facade a False) (out_edges facade b)
      (SPECIAL_EDGEID, INT_MAX) = (s2, w2)"
    by fastforce
  from fold_select_edge [OF r1] show ?thesis
  proof
    assume found: "w1 <s INT_MAX \<and> w1 = distance (GetEdgeData facade s1) \<and>
      (\<exists>pre post. out_edges facade a = pre @ s1 # post \<and> candidate facade b True s1 \<and>
         (\<forall>e \<in> set pre. candidate facade b True e \<longrightarrow> w1 <s distance (GetEdgeData facade e)) \<and>
         (\<forall>e \<in> set post. candidate facade b True e \<longrightarrow> w1 <=s distance (GetEdgeData facade e)))"
    then have fl: "first_lightest facade a b True s1"
      unfolding first_lightest_def usable_def by blast
    from found have mem: "s1 \<in> set (out_edges facade a)"
      by auto
    then have ne: "SPECIAL_EDGEID \<noteq> s1"
      using out_edges_not_special [of s1 facade a] by blast
    from found have "w1 <s INT_MAX"
      by blast
    then have nm: "w1 \<noteq> INT_MAX"
      by (rule sless_INT_MAX_neq)
    have res: "find_smaller_edge facade msg (a, b) = Inr s1"
      using ne nm by (simp add: find_smaller_edge_def r1 Let_def)
    from found have "usable facade b True s1"
      unfolding usable_def by blast
    with mem have "\<exists>e \<in> set (out_edges facade a). usable facade b True e"
      by blast
    with res fl show ?thesis
      by auto
  next
    assume none: "s1 = SPECIAL_EDGEID \<and> w1 = INT_MAX \<and>
      (\<forall>e \<in> set (out_edges facade a). candidate facade b True e \<longrightarrow>
         \<not> distance (GetEdgeData facade e) <s INT_MAX)"
    then have nf: "\<not> (\<exists>e \<in> set (out_edges facade a). usable facade b True e)"
      unfolding usable_def by blast
    have res: "find_smaller_edge facade msg (a, b) =
        (if w2 \<noteq> INT_MAX then Inr s2 else Inl (InvariantViolation msg))"
      using none by (simp add: find_smaller_edge_def r1 r2 Let_def)
    from fold_select_edge [OF r2] show ?thesis
    proof
      assume found: "w2 <s INT_MAX \<and> w2 = distance (GetEdgeData facade s2) \<and>
        (\<exists>pre post. out_edges facade b = pre @ s2 # post \<and> candidate facade a False s2 \<and>
           (\<forall>e \<in> set pre. candidate facade a False e \<longrightarrow> w2 <s distance (GetEdgeData facade e)) \<and>
           (\<forall>e \<in> set post. candidate facade a False e \<longrightarrow> w2 <=s distance (GetEdgeData facade e)))"
      then have fl: "first_lightest facade b a False s2"
        unfolding first_lightest_def usable_def by blast
      from found have mem: "s2 \<in> set (out_edges facade b)"
        by auto
      from found have "usable facade a False s2"
        unfolding usable_def by blast
      with mem have ex: "\<exists>e \<in> set (out_edges facade b). usable facade a False e"
        by blast
      from found have "w2 <s INT_MAX"
        by blast
      then have "w2 \<noteq> INT_MAX"
        by (rule sless_INT_MAX_neq)
      with res have "find_smaller_edge facade msg (a, b) = Inr s2"
        by simp
      with nf ex fl show ?thesis
        by auto
    next
      assume none2: "s2 = SPECIAL_EDGEID \<and> w2 = INT_MAX \<and>
        (\<forall>e \<in> set (out_edges facade b). candidate facade a False e \<longrightarrow>
           \<not> distance (GetEdgeData facade e) <s INT_MAX)"
      then have nb: "\<not> (\<exists>e \<in> set (out_edges facade b). usable facade a False e)"
        unfolding usable_def by blast
      from none2 res have "find_smaller_edge facade msg (a, b) = Inl (InvariantViolation msg)"
        by simp
      with nf nb show ?thesis
        by simp
    qed
  qed
qed

lemma first_lightest_mem: "first_lightest facade src tgt fl e \<Longrightarrow> e \<in> set (out_edges facade src)"
  by (auto simp: first_lightest_def)

lemma find_smaller_edge_mem:
  assumes "find_smaller_edge facade msg (a, b) = Inr e"
  shows "e \<in> set (out_edges facade a) \<or> e \<in> set (out_edges facade b)"
  using find_smaller_edge_cases [of facade a b msg] assms
  by (auto split: if_splits dest: first_lightest_mem)

lemma find_smaller_edge_none:
  assumes "\<forall>e \<in> set (out_edges facade a). \<not> candidate facade b True e"
      and "\<forall>e \<in> set (out_edges facade b). \<not> candidate facade a False e"
  shows "find_smaller_edge facade msg (a, b) = Inl (InvariantViolation msg)"
  using find_smaller_edge_cases [of facade a b msg] assms
  by (auto simp: usable_def split: if_splits)

section \<open>The unpacking loops\<close>

lemma unpack_path_loop_Nil:
  "unpack_path_loop facade [] unpacked_path = Some (Inr unpacked_path)"
  by (subst unpack_path_loop.simps) simp

lemma unpack_path_loop_Cons:
  "unpack_path_loop facade (edge # rest) unpacked_path =
     (case unpack_path_step facade edge rest unpacked_path of
        Inl e \<Rightarrow> Some (Inl e)
      | Inr next_state \<Rightarrow> unpack_path_loop facade (fst next_state) (snd next_state))"
  by (subst unpack_path_loop.simps) simp

lemma unpack_edge_loop_Nil:
  "unpack_edge_loop facade [] unpacked_path = Some (Inr unpacked_path)"
  by (subst unpack_edge_loop.simps) simp

lemma unpack_edge_loop_Cons:
  "unpack_edge_loop facade (edge # rest) unpacked_path =
     (case unpack_edge_step facade edge rest unpacked_path of
        Inl e \<Rightarrow> Some (Inl e)
      | Inr next_state \<Rightarrow> unpack_edge_loop facade (fst next_state) (snd next_state))"
  by (subst unpack_edge_loop.simps) simp

lemma unpack_path_step_eq:
  assumes "find_smaller_edge facade ''edge id invalid'' (a, b) = Inr e"
  shows "unpack_path_step facade (a, b) recursion_stack unpacked_path =
     (if shortcut (GetEdgeData facade e)
      then Inr ((a, id' (GetEdgeData facade e)) # (id' (GetEdgeData facade e), b) # recursion_stack,
                unpacked_path)
      else Inr (recursion_stack, unpacked_path @ [make_PathData facade (GetEdgeData facade e)]))"
  using assms by (simp add: unpack_path_step_def Let_def)

lemma unpack_path_step_emits:
  assumes "unpack_path_step facade edge rest out = Inr next_state"
  shows "\<exists>emitted. snd next_state = out @ emitted \<and> (\<forall>pd \<in> set emitted. original_record facade pd)"
proof -
  obtain a b where ab: "edge = (a, b)"
    by (cases edge)
  from assms obtain e where fe: "find_smaller_edge facade ''edge id invalid'' (a, b) = Inr e"
    unfolding ab unpack_path_step_def by (cases "find_smaller_edge facade ''edge id invalid'' (a, b)") auto
  show ?thesis
  proof (cases "shortcut (GetEdgeData facade e)")
    case True
    with assms have "snd next_state = out @ []"
      unfolding ab unpack_path_step_eq [OF fe] by auto
    then show ?thesis
      by (intro exI [of _ "[]"]) simp
  next
    case False
    with assms have s: "snd next_state = out @ [make_PathData facade (GetEdgeData facade e)]"
      unfolding ab unpack_path_step_eq [OF fe] by auto
    from find_smaller_edge_mem [OF fe] False
    have "original_record facade (make_PathData facade (GetEdgeData facade e))"
      unfolding original_record_def by blast
    with s show ?thesis
      by (intro exI [of _ "[make_PathData facade (GetEdgeData facade e)]"]) simp
  qed
qed

lemma unpack_path_loop_emits:
  assumes "unpack_path_loop facade recursion_stack unpacked_path = Some y"
  shows "\<forall>result. y = Inr result \<longrightarrow>
     (\<exists>emitted. result = unpacked_path @ emitted \<and> (\<forall>pd \<in> set emitted. original_record facade pd))"
proof (rule unpack_path_loop.raw_induct [where P = "\<lambda>facade recursion_stack unpacked_path y.
    \<forall>result. y = Inr result \<longrightarrow>
     (\<exists>emitted. result = unpacked_path @ emitted \<and> (\<forall>pd \<in> set emitted. original_record facade pd))",
    OF _ assms])
  fix loop :: "Facade \<Rightarrow> (NodeID \<times> NodeID) list \<Rightarrow> PathData list \<Rightarrow> (error + PathData list) option"
    and facade recursion_stack unpacked_path y
  assume IH: "\<And>facade recursion_stack unpacked_path y.
      loop facade recursion_stack unpacked_path = Some y \<Longrightarrow>
      \<forall>result. y = Inr result \<longrightarrow>
        (\<exists>emitted. result = unpacked_path @ emitted \<and>
           (\<forall>pd \<in> set emitted. original_record facade pd))"
    and eq: "(case recursion_stack of
        [] \<Rightarrow> Some (Inr unpacked_path)
      | edge # rest \<Rightarrow>
          (case unpack_path_step facade edge rest unpacked_path of
             Inl e \<Rightarrow> Some (Inl e)
           | Inr next_state \<Rightarrow> loop facade (fst next_state) (snd next_state))) = Some y"
  show "\<forall>result. y = Inr result \<longrightarrow>
     (\<exists>emitted. result = unpacked_path @ emitted \<and> (\<forall>pd \<in> set emitted. original_record facade pd))"
  proof (cases recursion_stack)
    case Nil
    with eq show ?thesis
      by auto
  next
    case (Cons edge rest)
    show ?thesis
    proof (cases "unpack_path_step facade edge rest unpacked_path")
      case (Inl e)
      with eq Cons show ?thesis
        by auto
    next
      case (Inr next_state)
      with eq Cons have l: "loop facade (fst next_state) (snd next_state) = Some y"
        by simp
      from unpack_path_step_emits [OF Inr] obtain em1 where
        e1: "snd next_state = unpacked_path @ em1" "\<forall>pd \<in> set em1. original_record facade pd"
        by blast
      show ?thesis
      proof (intro allI impI)
        fix result
        assume "y = Inr result"
        with IH [OF l] obtain em2 where
          e2: "result = snd next_state @ em2" "\<forall>pd \<in> set em2. original_record facade pd"
          by blast
        from e1 e2 have "result = unpacked_path @ (em1 @ em2) \<and>
            (\<forall>pd \<in> set (em1 @ em2). original_record facade pd)"
          by auto
        then show "\<exists>emitted. result = unpacked_path @ emitted \<and>
            (\<forall>pd \<in> set emitted. original_record facade pd)"
          by blast
      qed
    qed
  qed
qed

section \<open>The example graphs evaluated\<close>

lemma ex_out_edges_tie: "out_edges tie_facade 0 = [0, 1]"
  by (simp add: out_edges_def tie_facade_def edges_from.simps)

lemma ex_out_edges_max: "out_edges max_facade 0 = [0]" "out_edges max_facade 1 = []"
  by (simp_all add: out_edges_def max_facade_def edges_from.simps)

lemma ex_out_edges_sc:
  "out_edges shortcut_facade 0 = [0, 1]" "out_edges shortcut_facade 1 = [2]"
  "out_edges shortcut_facade 2 = []"
  by (simp_all add: out_edges_def shortcut_facade_def edges_from.simps)

lemma ex_out_edges_1: "out_edges stall_facade 1 = [2]"
  by (simp add: out_edges_def stall_facade_def edges_from.simps)

lemma ex_find_tie: "find_smaller_edge tie_facade msg (0, 1) = Inr 1"
  unfolding find_smaller_edge_def fst_conv snd_conv ex_out_edges_tie
  by (simp add: select_edge_def tie_facade_def INT_MAX_def SPECIAL_EDGEID_def word_sless_alt)

lemma ex_find_max: "find_smaller_edge max_facade msg (0, 1) = Inl (InvariantViolation msg)"
  unfolding find_smaller_edge_def fst_conv snd_conv ex_out_edges_max
  by (simp add: select_edge_def max_facade_def INT_MAX_def SPECIAL_EDGEID_def word_sless_alt)

lemma ex_find_sc:
  "find_smaller_edge shortcut_facade msg (0, 2) = Inr 1"
  "find_smaller_edge shortcut_facade msg (0, 1) = Inr 0"
  "find_smaller_edge shortcut_facade msg (1, 2) = Inr 2"
  unfolding find_smaller_edge_def fst_conv snd_conv ex_out_edges_sc
  by (simp_all add: select_edge_def shortcut_facade_def INT_MAX_def SPECIAL_EDGEID_def
      word_sless_alt)

lemma ex_UnpackPath_sc:
  "UnpackPath shortcut_facade [0, 2] [] =
     Some (Inr [\<lparr>edge_payload = 400, name_index = 401, turn_instruction = 0, weight = 3\<rparr>,
                \<lparr>edge_payload = 402, name_index = 403, turn_instruction = 0, weight = 4\<rparr>])"
proof -
  have sd: "seed_stack [0, 2 :: NodeID] 1 [] = Inr [(0, 2)]"
    by (simp add: seed_stack.simps)
  have d: "GetEdgeData shortcut_facade 0 =
        \<lparr>id' = 400, shortcut = False, distance = 3, forward = True, backward = False\<rparr>"
      "GetEdgeData shortcut_facade 1 =
        \<lparr>id' = 1, shortcut = True, distance = 7, forward = True, backward = False\<rparr>"
      "GetEdgeData shortcut_facade 2 =
        \<lparr>id' = 402, shortcut = False, distance = 4, forward = True, backward = False\<rparr>"
      "GetNameIndexFromEdgeID shortcut_facade 400 = 401"
      "GetNameIndexFromEdgeID shortcut_facade 402 = 403"
      "GetTurnInstructionForEdgeID shortcut_facade 400 = 0"
      "GetTurnInstructionForEdgeID shortcut_facade 402 = 0"
    by (simp_all add: shortcut_facade_def)
  have s1: "unpack_path_step shortcut_facade (0, 2) [] [] = Inr ([(0, 1), (1, 2)], [])"
    by (simp add: unpack_path_step_eq [OF ex_find_sc(1)] d)
  have s2: "unpack_path_step shortcut_facade (0, 1) [(1, 2)] [] =
      Inr ([(1, 2)], [\<lparr>edge_payload = 400, name_index = 401, turn_instruction = 0, weight = 3\<rparr>])"
    by (simp add: unpack_path_step_eq [OF ex_find_sc(2)] d make_PathData_def)
  have s3: "unpack_path_step shortcut_facade (1, 2) []
        [\<lparr>edge_payload = 400, name_index = 401, turn_instruction = 0, weight = 3\<rparr>] =
      Inr ([], [\<lparr>edge_payload = 400, name_index = 401, turn_instruction = 0, weight = 3\<rparr>,
                \<lparr>edge_payload = 402, name_index = 403, turn_instruction = 0, weight = 4\<rparr>])"
    by (simp add: unpack_path_step_eq [OF ex_find_sc(3)] d make_PathData_def)
  show ?thesis
    by (simp add: UnpackPath_def sd unpack_path_loop_Cons unpack_path_loop_Nil s1 s2 s3)
qed

section \<open>Unpacking: selection, abort and output\<close>

text \<open>
  The selection rule as the specification words it fails on an edge of weight \<open>INT_MAX\<close>:
  in \<open>max_facade\<close> the only edge is a forward edge from 0 to 1 of that weight, the test
  \<open>weight < edge_weight\<close> never holds, and the pair \<open>(0, 1)\<close> is resolved to no edge.
\<close>

theorem selection_as_claimed_counterexample:
  "\<not> selection_as_claimed max_facade ''edge id invalid'' 0 1"
proof -
  have "candidate max_facade 1 True 0"
    by (simp add: candidate_def direction_flag_def max_facade_def)
  then have "\<exists>e \<in> set (out_edges max_facade 0). candidate max_facade 1 True e"
    by (simp add: ex_out_edges_max)
  then show ?thesis
    by (simp add: selection_as_claimed_def ex_find_max)
qed

text \<open>
  Claim C5, amended. For a pair \<open>(a, b)\<close> popped by \<open>UnpackPath\<close> or \<open>UnpackEdge\<close> (they
  differ in the message \<open>msg\<close> only), the selection resolves it to the minimum-weight edge,
  the first one in scan order among equals, among the edges out of \<open>a\<close> with target \<open>b\<close>,
  forward flag and weight below \<open>INT_MAX\<close>; only if there is no such edge, to the
  minimum-weight edge among the edges out of \<open>b\<close> with target \<open>a\<close>, backward flag and
  weight below \<open>INT_MAX\<close>; and if there is none either, the assertion fails. With the
  parallel forward edges from 0 to 1 of weights 8 and 5 the pair \<open>(0, 1)\<close> selects the edge
  of weight 5.
\<close>

theorem find_smaller_edge_selects:
  "(if \<exists>e \<in> set (out_edges facade a). usable facade b True e
    then \<exists>e. find_smaller_edge facade msg (a, b) = Inr e \<and> first_lightest facade a b True e
    else if \<exists>e \<in> set (out_edges facade b). usable facade a False e
    then \<exists>e. find_smaller_edge facade msg (a, b) = Inr e \<and> first_lightest facade b a False e
    else find_smaller_edge facade msg (a, b) = Inl (InvariantViolation msg))"
  by (rule find_smaller_edge_cases)

theorem find_smaller_edge_selects_witness:
  "(\<exists>e \<in> set (out_edges tie_facade 0). usable tie_facade 1 True e) \<and>
   find_smaller_edge tie_facade ''edge id invalid'' (0, 1) = Inr 1 \<and>
   first_lightest tie_facade 0 1 True 1 \<and>
   distance (GetEdgeData tie_facade 0) = 8 \<and> distance (GetEdgeData tie_facade 1) = 5"
proof -
  have ex: "\<exists>e \<in> set (out_edges tie_facade 0). usable tie_facade 1 True e"
    unfolding ex_out_edges_tie
    by (simp add: usable_def candidate_def direction_flag_def tie_facade_def INT_MAX_def
        word_sless_alt)
  from find_smaller_edge_selects [of tie_facade 0 1 "''edge id invalid''"] ex
  have "\<exists>e. find_smaller_edge tie_facade ''edge id invalid'' (0, 1) = Inr e \<and>
      first_lightest tie_facade 0 1 True e"
    by simp
  then have "first_lightest tie_facade 0 1 True 1"
    by (simp add: ex_find_tie)
  moreover have "distance (GetEdgeData tie_facade 0) = 8 \<and> distance (GetEdgeData tie_facade 1) = 5"
    by (simp add: tie_facade_def)
  ultimately show ?thesis
    using ex ex_find_tie by blast
qed

text \<open>
  Claim C7. If a popped pair \<open>(a, b)\<close> has neither a forward edge from \<open>a\<close> to \<open>b\<close> nor a
  backward edge from \<open>b\<close> to \<open>a\<close>, the round fails the assertion and the loop ends there
  with the invariant violation, in \<open>UnpackPath\<close> and in \<open>UnpackEdge\<close> alike, whatever is
  left on the stack.
\<close>

theorem unpack_aborts_without_candidate:
  assumes "\<not> (\<exists>e \<in> set (out_edges facade a). candidate facade b True e)"
      and "\<not> (\<exists>e \<in> set (out_edges facade b). candidate facade a False e)"
  shows "unpack_path_step facade (a, b) recursion_stack unpacked_path =
           Inl (InvariantViolation ''edge id invalid'') \<and>
         unpack_path_loop facade ((a, b) # recursion_stack) unpacked_path =
           Some (Inl (InvariantViolation ''edge id invalid'')) \<and>
         unpack_edge_step facade (a, b) recursion_stack nodes =
           Inl (InvariantViolation ''edge weight invalid'') \<and>
         unpack_edge_loop facade ((a, b) # recursion_stack) nodes =
           Some (Inl (InvariantViolation ''edge weight invalid'')) \<and>
         UnpackEdge facade a b nodes = Some (Inl (InvariantViolation ''edge weight invalid''))"
proof -
  have f: "find_smaller_edge facade msg (a, b) = Inl (InvariantViolation msg)" for msg
    using assms by (intro find_smaller_edge_none) blast+
  have p: "unpack_path_step facade (a, b) stack unpacked_path =
      Inl (InvariantViolation ''edge id invalid'')" for stack
    by (simp add: unpack_path_step_def f)
  have e: "unpack_edge_step facade (a, b) stack nodes =
      Inl (InvariantViolation ''edge weight invalid'')" for stack
    by (simp add: unpack_edge_step_def f)
  show ?thesis
    by (simp add: p e unpack_path_loop_Cons unpack_edge_loop_Cons UnpackEdge_def)
qed

theorem unpack_aborts_without_candidate_witness:
  "\<not> (\<exists>e \<in> set (out_edges stall_facade 1). candidate stall_facade 0 True e) \<and>
   \<not> (\<exists>e \<in> set (out_edges stall_facade 0). candidate stall_facade 1 False e) \<and>
   unpack_path_loop stall_facade [(1, 0)] [] = Some (Inl (InvariantViolation ''edge id invalid'')) \<and>
   UnpackPath stall_facade [1, 0] [] = Some (Inl (InvariantViolation ''edge id invalid'')) \<and>
   UnpackEdge stall_facade 1 0 [] = Some (Inl (InvariantViolation ''edge weight invalid''))"
proof -
  have nf: "\<not> (\<exists>e \<in> set (out_edges stall_facade 1). candidate stall_facade 0 True e)"
    unfolding ex_out_edges_1
    by (simp add: candidate_def stall_facade_def)
  have nb: "\<not> (\<exists>e \<in> set (out_edges stall_facade 0). candidate stall_facade 1 False e)"
    unfolding ex_out_edges_0
    by (simp add: candidate_def direction_flag_def stall_facade_def)
  have sd: "seed_stack [1, 0] (of_nat (length [1, 0 :: NodeID]) - 1) [] = Inr [(1, 0)]"
    by (simp add: seed_stack.simps)
  from unpack_aborts_without_candidate [OF nf nb, of "[]" "[]" "[]"]
  have l: "unpack_path_loop stall_facade [(1, 0)] [] =
        Some (Inl (InvariantViolation ''edge id invalid''))"
    and u: "UnpackEdge stall_facade 1 0 [] = Some (Inl (InvariantViolation ''edge weight invalid''))"
    by simp_all
  from l sd have "UnpackPath stall_facade [1, 0] [] =
      Some (Inl (InvariantViolation ''edge id invalid''))"
    by (simp add: UnpackPath_def)
  with nf nb l u show ?thesis
    by blast
qed

text \<open>
  Claim C6. In a round of the loop of \<open>UnpackPath\<close> that selects the edge \<open>e\<close> for the pair
  \<open>(a, b)\<close>: if \<open>e\<close> is a shortcut with middle node \<open>m\<close>, the stack receives \<open>(m, b)\<close> and
  on top of it \<open>(a, m)\<close>, which is popped first, and nothing is emitted; otherwise one
  record, built from \<open>e\<close>, is appended to the output. Hence whenever the loop, or
  \<open>UnpackPath\<close>, returns a path, every record it has appended was built from an edge of
  the graph that is not a shortcut.
\<close>

theorem UnpackPath_emits_original_edges:
  "(find_smaller_edge facade ''edge id invalid'' (a, b) = Inr e \<longrightarrow>
      unpack_path_step facade (a, b) recursion_stack unpacked_path =
        (if shortcut (GetEdgeData facade e)
         then Inr ((a, id' (GetEdgeData facade e)) # (id' (GetEdgeData facade e), b) #
                     recursion_stack, unpacked_path)
         else Inr (recursion_stack,
                   unpacked_path @ [make_PathData facade (GetEdgeData facade e)]))) \<and>
   (unpack_path_loop facade recursion_stack unpacked_path = Some (Inr result) \<longrightarrow>
      (\<exists>emitted. result = unpacked_path @ emitted \<and>
         (\<forall>pd \<in> set emitted. original_record facade pd))) \<and>
   (UnpackPath facade packed_path unpacked_path = Some (Inr result') \<longrightarrow>
      (\<exists>emitted. result' = unpacked_path @ emitted \<and>
         (\<forall>pd \<in> set emitted. original_record facade pd)))"
proof (intro conjI impI)
  assume "find_smaller_edge facade ''edge id invalid'' (a, b) = Inr e"
  then show "unpack_path_step facade (a, b) recursion_stack unpacked_path =
        (if shortcut (GetEdgeData facade e)
         then Inr ((a, id' (GetEdgeData facade e)) # (id' (GetEdgeData facade e), b) #
                     recursion_stack, unpacked_path)
         else Inr (recursion_stack,
                   unpacked_path @ [make_PathData facade (GetEdgeData facade e)]))"
    by (rule unpack_path_step_eq)
next
  assume "unpack_path_loop facade recursion_stack unpacked_path = Some (Inr result)"
  from unpack_path_loop_emits [OF this]
  show "\<exists>emitted. result = unpacked_path @ emitted \<and>
         (\<forall>pd \<in> set emitted. original_record facade pd)"
    by blast
next
  assume u: "UnpackPath facade packed_path unpacked_path = Some (Inr result')"
  then obtain stack where "unpack_path_loop facade stack unpacked_path = Some (Inr result')"
    by (auto simp: UnpackPath_def Let_def split: sum.splits)
  from unpack_path_loop_emits [OF this]
  show "\<exists>emitted. result' = unpacked_path @ emitted \<and>
         (\<forall>pd \<in> set emitted. original_record facade pd)"
    by blast
qed

theorem UnpackPath_emits_original_edges_witness:
  "find_smaller_edge shortcut_facade ''edge id invalid'' (0, 2) = Inr 1 \<and>
   shortcut (GetEdgeData shortcut_facade 1) \<and>
   unpack_path_step shortcut_facade (0, 2) [] [] = Inr ([(0, 1), (1, 2)], []) \<and>
   UnpackPath shortcut_facade [0, 2] [] =
     Some (Inr [\<lparr>edge_payload = 400, name_index = 401, turn_instruction = 0, weight = 3\<rparr>,
                \<lparr>edge_payload = 402, name_index = 403, turn_instruction = 0, weight = 4\<rparr>]) \<and>
   original_record shortcut_facade
     \<lparr>edge_payload = 400, name_index = 401, turn_instruction = 0, weight = 3\<rparr> \<and>
   original_record shortcut_facade
     \<lparr>edge_payload = 402, name_index = 403, turn_instruction = 0, weight = 4\<rparr>"
proof -
  have sc: "shortcut (GetEdgeData shortcut_facade 1)" "id' (GetEdgeData shortcut_facade 1) = 1"
    by (simp_all add: shortcut_facade_def)
  from UnpackPath_emits_original_edges [of shortcut_facade 0 2 1 "[]" "[]"] ex_find_sc(1) sc
  have st: "unpack_path_step shortcut_facade (0, 2) [] [] = Inr ([(0, 1), (1, 2)], [])"
    by simp
  from UnpackPath_emits_original_edges [of shortcut_facade _ _ _ _ "[]" _ "[0, 2]"]
    ex_UnpackPath_sc
  have "original_record shortcut_facade
     \<lparr>edge_payload = 400, name_index = 401, turn_instruction = 0, weight = 3\<rparr> \<and>
   original_record shortcut_facade
     \<lparr>edge_payload = 402, name_index = 403, turn_instruction = 0, weight = 4\<rparr>"
    by auto
  with st sc ex_find_sc(1) ex_UnpackPath_sc show ?thesis
    by blast
qed

end
